theory Spec2Isabelle
  imports Complex_Main
begin

section \<open>JavaScript numbers\<close>

text \<open>
  Every numeric quantity of \<^verbatim>\<open>script.js\<close> is a JavaScript Number. Two models of a Number
  are used. The first, in this section, keeps the three special values of a Number apart
  from the finite ones and takes a finite Number as the real it denotes: arithmetic on
  finite values is exact, so rounding to the nearest double, overflow of a finite result
  and the sign of zero are outside it (a zero divisor counts as \<^verbatim>\<open>+0\<close>). It serves the
  claims about which formula the program evaluates and about its lists, strings and
  messages. The second model, IEEE 754 doubles with every operation rounded, comes after
  the program; it serves the claims about what the program returns at a singular or tiny
  angle and after the round trip of a unit conversion. In both, the special values follow
  IEEE 754 as JavaScript has it: \<^verbatim>\<open>x / 0\<close> is an infinity for \<^verbatim>\<open>x \<noteq> 0\<close> and \<^verbatim>\<open>NaN\<close>
  for \<^verbatim>\<open>x = 0\<close>, \<^verbatim>\<open>Infinity - Infinity\<close> and \<^verbatim>\<open>0 * Infinity\<close> are \<^verbatim>\<open>NaN\<close>, and
  every comparison with \<^verbatim>\<open>NaN\<close> is false.
\<close>

datatype jsnum = Fin real | PInf | NInf | NaN

text \<open>\<^verbatim>\<open>Number.isFinite\<close> on a Number.\<close>

fun Number_isFinite :: "jsnum \<Rightarrow> bool" where
  "Number_isFinite (Fin x) = True"
| "Number_isFinite v = False"

instantiation jsnum :: "{zero, one, plus, uminus, minus, times, inverse, ord}"
begin

definition zero_jsnum :: jsnum where
  "zero_jsnum = Fin 0"

definition one_jsnum :: jsnum where
  "one_jsnum = Fin 1"

fun plus_jsnum :: "jsnum \<Rightarrow> jsnum \<Rightarrow> jsnum" where
  "plus_jsnum NaN b = NaN"
| "plus_jsnum a NaN = NaN"
| "plus_jsnum (Fin x) (Fin y) = Fin (x + y)"
| "plus_jsnum PInf NInf = NaN"
| "plus_jsnum NInf PInf = NaN"
| "plus_jsnum PInf b = PInf"
| "plus_jsnum NInf b = NInf"
| "plus_jsnum (Fin x) b = b"

fun uminus_jsnum :: "jsnum \<Rightarrow> jsnum" where
  "uminus_jsnum (Fin x) = Fin (- x)"
| "uminus_jsnum PInf = NInf"
| "uminus_jsnum NInf = PInf"
| "uminus_jsnum NaN = NaN"

definition minus_jsnum :: "jsnum \<Rightarrow> jsnum \<Rightarrow> jsnum" where
  "minus_jsnum a b = a + (- b)"

fun times_jsnum :: "jsnum \<Rightarrow> jsnum \<Rightarrow> jsnum" where
  "times_jsnum NaN b = NaN"
| "times_jsnum a NaN = NaN"
| "times_jsnum (Fin x) (Fin y) = Fin (x * y)"
| "times_jsnum (Fin x) PInf = (if x = 0 then NaN else if 0 < x then PInf else NInf)"
| "times_jsnum (Fin x) NInf = (if x = 0 then NaN else if 0 < x then NInf else PInf)"
| "times_jsnum PInf (Fin y) = (if y = 0 then NaN else if 0 < y then PInf else NInf)"
| "times_jsnum NInf (Fin y) = (if y = 0 then NaN else if 0 < y then NInf else PInf)"
| "times_jsnum PInf PInf = PInf"
| "times_jsnum PInf NInf = NInf"
| "times_jsnum NInf PInf = NInf"
| "times_jsnum NInf NInf = PInf"

fun divide_jsnum :: "jsnum \<Rightarrow> jsnum \<Rightarrow> jsnum" where
  "divide_jsnum NaN b = NaN"
| "divide_jsnum a NaN = NaN"
| "divide_jsnum (Fin x) (Fin y) =
     (if y \<noteq> 0 then Fin (x / y)
      else if x = 0 then NaN else if 0 < x then PInf else NInf)"
| "divide_jsnum (Fin x) b = Fin 0"
| "divide_jsnum PInf (Fin y) = (if 0 \<le> y then PInf else NInf)"
| "divide_jsnum NInf (Fin y) = (if 0 \<le> y then NInf else PInf)"
| "divide_jsnum a b = NaN"

definition inverse_jsnum :: "jsnum \<Rightarrow> jsnum" where
  "inverse_jsnum a = divide 1 a"

fun less_jsnum :: "jsnum \<Rightarrow> jsnum \<Rightarrow> bool" where
  "less_jsnum NaN b = False"
| "less_jsnum a NaN = False"
| "less_jsnum (Fin x) (Fin y) = (x < y)"
| "less_jsnum a NInf = False"
| "less_jsnum PInf b = False"
| "less_jsnum a b = True"

fun less_eq_jsnum :: "jsnum \<Rightarrow> jsnum \<Rightarrow> bool" where
  "less_eq_jsnum NaN b = False"
| "less_eq_jsnum a NaN = False"
| "less_eq_jsnum (Fin x) (Fin y) = (x \<le> y)"
| "less_eq_jsnum NInf b = True"
| "less_eq_jsnum a PInf = True"
| "less_eq_jsnum a b = False"

instance ..

end

text \<open>
  Sums and products of Numbers are associative and commutative in this model (rounding is
  what breaks associativity on doubles), which is what lets a formula of the program be
  compared with the same formula grouped differently. The laws that fail for the special
  values (\<^verbatim>\<open>0 * x = 0\<close>, distributivity, \<^verbatim>\<open>x - x = 0\<close>) are not claimed.
\<close>

instance jsnum :: comm_monoid_add
proof
  fix u v w :: jsnum
  show "0 + u = u"
    by (cases u) (simp_all add: zero_jsnum_def)
  show "u + v = v + u"
    by (cases u; cases v) simp_all
  show "(u + v) + w = u + (v + w)"
    by (cases u; cases v; cases w) simp_all
qed

instance jsnum :: comm_monoid_mult
proof
  fix u v w :: jsnum
  show "1 * u = u"
    by (cases u) (simp_all add: one_jsnum_def)
  show "u * v = v * u"
    by (cases u; cases v) (simp_all add: mult.commute)
  show "(u * v) * w = u * (v * w)"
    by (cases u; cases v; cases w)
       (auto simp: zero_less_mult_iff mult_less_0_iff not_less order_le_less)
qed

instance jsnum :: numeral ..

subsection \<open>The functions of \<^verbatim>\<open>Math\<close> the program calls\<close>

definition PI :: jsnum where
  "PI = Fin pi"

fun Math_cos :: "jsnum \<Rightarrow> jsnum" where
  "Math_cos (Fin x) = Fin (cos x)"
| "Math_cos v = NaN"

text \<open>
  The real tangent has a pole where the cosine vanishes, and HOL's \<^term>\<open>tan\<close> is
  \<^term>\<open>0::real\<close> there. \<^verbatim>\<open>Math.tan\<close> never meets the pole (no double is an odd multiple
  of \<open>\<pi>/2\<close>): at \<^verbatim>\<open>Math.PI/2\<close> it returns about \<^verbatim>\<open>1.6e16\<close>. The model takes
  \<^verbatim>\<open>Infinity\<close> at the pole, so that a quotient by the tangent is \<^verbatim>\<open>0\<close> there, as it is
  in the program up to rounding.
\<close>

fun Math_tan :: "jsnum \<Rightarrow> jsnum" where
  "Math_tan (Fin x) = (if cos x = 0 then PInf else Fin (tan x))"
| "Math_tan v = NaN"

fun Math_acos :: "jsnum \<Rightarrow> jsnum" where
  "Math_acos (Fin x) = (if - 1 \<le> x \<and> x \<le> 1 then Fin (arccos x) else NaN)"
| "Math_acos v = NaN"

fun Math_sqrt :: "jsnum \<Rightarrow> jsnum" where
  "Math_sqrt (Fin x) = (if 0 \<le> x then Fin (sqrt x) else NaN)"
| "Math_sqrt PInf = PInf"
| "Math_sqrt v = NaN"

section \<open>JavaScript strings\<close>

text \<open>
  A JavaScript string is a sequence of UTF-16 code units, each a number below \<open>2^16\<close>.
  The program never computes with code units beyond comparing them, so they are modelled
  as natural numbers; the lower-casing of a letter and the value of a digit stay below
  \<open>2^16\<close> without any wrap-around. \<open>js\<close> embeds an ASCII literal.
\<close>

type_synonym codeunit = nat

type_synonym jsstring = "codeunit list"

definition js :: "string \<Rightarrow> jsstring" where
  "js s = map of_char s"

text \<open>
  The white space and line terminators that \<^verbatim>\<open>String.prototype.trim\<close> strips and that
  \<^verbatim>\<open>Number\<close> skips around a numeric literal: TAB, LF, VT, FF, CR, SP, NBSP, the other
  space separators of Unicode, LS, PS and the byte-order mark U+FEFF.
\<close>

definition isWhiteSpace :: "codeunit \<Rightarrow> bool" where
  "isWhiteSpace c \<longleftrightarrow>
     c = 0x9 \<or> c = 0xA \<or> c = 0xB \<or> c = 0xC \<or> c = 0xD \<or> c = 0x20 \<or> c = 0xA0 \<or>
     c = 0x1680 \<or> (0x2000 \<le> c \<and> c \<le> 0x200A) \<or> c = 0x2028 \<or> c = 0x2029 \<or>
     c = 0x202F \<or> c = 0x205F \<or> c = 0x3000 \<or> c = 0xFEFF"

definition trim :: "jsstring \<Rightarrow> jsstring" where
  "trim s = rev (dropWhile isWhiteSpace (rev (dropWhile isWhiteSpace s)))"

text \<open>
  \<^verbatim>\<open>toLowerCase\<close>, on the letters A to Z. The full Unicode mapping is not modelled; the
  program only compares the result with names written in the ASCII letters
  \<^verbatim>\<open>a c d e g h i l m n o r s t z\<close>, and no other code unit lowercases to one of these
  on its own, so the comparison has the same outcome.
\<close>

definition toLowerCase :: "jsstring \<Rightarrow> jsstring" where
  "toLowerCase s = map (\<lambda>c. if 0x41 \<le> c \<and> c \<le> 0x5A then c + 0x20 else c) s"

subsection \<open>\<^verbatim>\<open>Number(string)\<close>\<close>

text \<open>
  The \<^verbatim>\<open>StringToNumber\<close> conversion of ECMAScript: white space is trimmed, the empty string
  is \<^verbatim>\<open>0\<close>, a decimal literal (optional sign, digits with an optional fraction and an
  optional exponent, or \<^verbatim>\<open>Infinity\<close>) or an unsigned binary, octal or hexadecimal integer
  literal is its value, and every other string is \<^verbatim>\<open>NaN\<close>. Which literals are finite is
  exact: a literal whose value is at least \<open>2^1024 - 2^970\<close> in magnitude rounds to an
  infinity. A finite literal is taken at its exact value.
\<close>

definition isDigit :: "codeunit \<Rightarrow> bool" where
  "isDigit c \<longleftrightarrow> 0x30 \<le> c \<and> c \<le> 0x39"

definition digitsValue :: "nat \<Rightarrow> (codeunit \<Rightarrow> nat) \<Rightarrow> jsstring \<Rightarrow> nat" where
  "digitsValue base dv s = foldl (\<lambda>n c. base * n + dv c) 0 s"

definition decDigit :: "codeunit \<Rightarrow> nat" where
  "decDigit c = c - 0x30"

definition isHexDigit :: "codeunit \<Rightarrow> bool" where
  "isHexDigit c \<longleftrightarrow>
     isDigit c \<or> (0x41 \<le> c \<and> c \<le> 0x46) \<or> (0x61 \<le> c \<and> c \<le> 0x66)"

definition hexDigit :: "codeunit \<Rightarrow> nat" where
  "hexDigit c =
     (if isDigit c then c - 0x30
      else if 0x41 \<le> c \<and> c \<le> 0x46 then c - 0x41 + 10
      else c - 0x61 + 10)"

definition RoundMV :: "real \<Rightarrow> jsnum" where
  "RoundMV v =
     (if 2 ^ 1024 - 2 ^ 970 \<le> v then PInf
      else if v \<le> - (2 ^ 1024 - 2 ^ 970) then NInf
      else Fin v)"

text \<open>
  \<^verbatim>\<open>ExponentPart\<close>: the text after the digits is empty (exponent 0), or \<^verbatim>\<open>e\<close> or
  \<^verbatim>\<open>E\<close>, an optional sign and at least one digit, and nothing after them.
\<close>

definition exponentPart :: "jsstring \<Rightarrow> int option" where
  "exponentPart s =
     (case s of
        [] \<Rightarrow> Some 0
      | c # r \<Rightarrow>
          if c = 0x65 \<or> c = 0x45 then
            (let (neg, ds) =
               (case r of
                  [] \<Rightarrow> (False, [])
                | d # r' \<Rightarrow>
                    if d = 0x2D then (True, r')
                    else if d = 0x2B then (False, r')
                    else (False, r))
             in if ds \<noteq> [] \<and> list_all isDigit ds
                then Some (if neg then - int (digitsValue 10 decDigit ds)
                           else int (digitsValue 10 decDigit ds))
                else None)
          else None)"

text \<open>
  \<^verbatim>\<open>StrUnsignedDecimalLiteral\<close>, as an exact real (\<^verbatim>\<open>Infinity\<close> is handled by the
  caller): integer digits, an optional dot with fraction digits, an optional exponent;
  at least one digit before or after the dot.
\<close>

definition unsignedDecimal :: "jsstring \<Rightarrow> real option" where
  "unsignedDecimal s =
     (let ip = takeWhile isDigit s;
          r1 = dropWhile isDigit s;
          dot = (r1 \<noteq> [] \<and> hd r1 = 0x2E);
          fp = (if dot then takeWhile isDigit (tl r1) else []);
          r2 = (if dot then dropWhile isDigit (tl r1) else r1)
      in if ip = [] \<and> fp = [] then None
         else (case exponentPart r2 of
                 None \<Rightarrow> None
               | Some e \<Rightarrow>
                   (let m = real (digitsValue 10 decDigit (ip @ fp));
                        k = e - int (length fp)
                    in Some (if 0 \<le> k then m * 10 ^ nat k else m / 10 ^ nat (- k)))))"

definition nonDecimal :: "jsstring \<Rightarrow> real option" where
  "nonDecimal s =
     (case s of
        z # x # ds \<Rightarrow>
          if z = 0x30 \<and> ds \<noteq> [] then
            (if (x = 0x78 \<or> x = 0x58) \<and> list_all isHexDigit ds
               then Some (real (digitsValue 16 hexDigit ds))
             else if (x = 0x6F \<or> x = 0x4F) \<and> list_all (\<lambda>c. 0x30 \<le> c \<and> c \<le> 0x37) ds
               then Some (real (digitsValue 8 decDigit ds))
             else if (x = 0x62 \<or> x = 0x42) \<and> list_all (\<lambda>c. c = 0x30 \<or> c = 0x31) ds
               then Some (real (digitsValue 2 decDigit ds))
             else None)
          else None
      | _ \<Rightarrow> None)"

definition StringToNumber :: "jsstring \<Rightarrow> jsnum" where
  "StringToNumber str =
     (let s = trim str in
      if s = [] then Fin 0
      else case nonDecimal s of
        Some v \<Rightarrow> RoundMV v
      | None \<Rightarrow>
          (let neg = (hd s = 0x2D);
               u = (if hd s = 0x2D \<or> hd s = 0x2B then tl s else s)
           in if u = js ''Infinity'' then (if neg then NInf else PInf)
              else case unsignedDecimal u of
                None \<Rightarrow> NaN
              | Some v \<Rightarrow> RoundMV (if neg then - v else v)))"

text \<open>
  The values the program passes around where a Number is expected: a Number, a string, or
  \<^verbatim>\<open>undefined\<close>. \<^verbatim>\<open>Number(v)\<close> converts each.
\<close>

datatype jsval = Num jsnum | Str jsstring | Undefined

fun Number :: "jsval \<Rightarrow> jsnum" where
  "Number (Num n) = n"
| "Number (Str s) = StringToNumber s"
| "Number Undefined = NaN"

section \<open>Generic array operations\<close>

text \<open>
  \<^verbatim>\<open>Array.prototype.sort(cmp)\<close> is stable, and for a consistent comparator its result
  is determined: the elements in ascending order of \<open>cmp\<close>, equal ones in their
  original order. Stable insertion computes that result. A comparator result that is
  \<^verbatim>\<open>NaN\<close> counts as \<^verbatim>\<open>0\<close>, as in JavaScript.
\<close>

fun sort_insert :: "('a \<Rightarrow> 'a \<Rightarrow> jsnum) \<Rightarrow> 'a \<Rightarrow> 'a list \<Rightarrow> 'a list" where
  "sort_insert cmp x [] = [x]"
| "sort_insert cmp x (y # ys) =
     (if cmp x y < 0 then x # y # ys else y # sort_insert cmp x ys)"

definition array_sort :: "('a \<Rightarrow> 'a \<Rightarrow> jsnum) \<Rightarrow> 'a list \<Rightarrow> 'a list" where
  "array_sort cmp xs = foldl (\<lambda>acc x. sort_insert cmp x acc) [] xs"

text \<open>
  \<^verbatim>\<open>[...new Set(xs)]\<close>: the elements of \<open>xs\<close> in the order of their first occurrence.
  \<open>seen\<close> is the set built so far, in insertion order.
\<close>

fun Set_values :: "'a list \<Rightarrow> 'a list \<Rightarrow> 'a list" where
  "Set_values seen [] = seen"
| "Set_values seen (x # xs) = Set_values (if x \<in> set seen then seen else seen @ [x]) xs"

text \<open>\<^verbatim>\<open>xs.indexOf(k)\<close>: the first index of \<open>k\<close>, or \<open>-1\<close>.\<close>

fun indexOf :: "'a list \<Rightarrow> 'a \<Rightarrow> int" where
  "indexOf [] k = - 1"
| "indexOf (x # xs) k =
     (if x = k then 0 else (let i = indexOf xs k in if i = - 1 then - 1 else i + 1))"

text \<open>
  \<^verbatim>\<open>s.split(",")\<close> and \<^verbatim>\<open>s.split(/\r?\n/)\<close>. Both return one more piece than there
  are separators; a carriage return counts as part of the separator only right before a
  line feed.
\<close>

fun split_comma :: "jsstring \<Rightarrow> jsstring list" where
  "split_comma [] = [[]]"
| "split_comma (c # s) =
     (if c = 0x2C then [] # split_comma s
      else (case split_comma s of
              [] \<Rightarrow> [[c]]
            | l # ls \<Rightarrow> (c # l) # ls))"

fun split_lines :: "jsstring \<Rightarrow> jsstring list" where
  "split_lines [] = [[]]"
| "split_lines [c] = (if c = 0xA then [[], []] else [[c]])"
| "split_lines (c # d # s) =
     (if c = 0xA then [] # split_lines (d # s)
      else if c = 0xD \<and> d = 0xA then [] # split_lines s
      else (case split_lines (d # s) of
              [] \<Rightarrow> [[c]]
            | l # ls \<Rightarrow> (c # l) # ls))"

section \<open>Basic utilities: unit conversion\<close>

definition IN_TO_MM :: jsnum where
  "IN_TO_MM = 25.4"

definition AMBIENT :: jsnum where
  "AMBIENT = 23"

text \<open>
  \<^verbatim>\<open>convert(value, from, to)\<close>. The result is a Number, or the empty string when the
  value is not a finite number. A unit pair that matches none of the four rules falls
  through to the last \<^verbatim>\<open>return num\<close>.
\<close>

definition convert :: "jsval \<Rightarrow> jsstring \<Rightarrow> jsstring \<Rightarrow> jsval" where
  "convert value from to =
     (let num = Number value in
      if \<not> Number_isFinite num then Str []
      else if from = to then Num num
      else if from = js ''in'' \<and> to = js ''mm'' then Num (num * IN_TO_MM)
      else if from = js ''mm'' \<and> to = js ''in'' then Num (num / IN_TO_MM)
      else if from = js ''C'' \<and> to = js ''F'' then Num (num * 9 / 5 + 32)
      else if from = js ''F'' \<and> to = js ''C'' then Num ((num - 32) * 5 / 9)
      else Num num)"

section \<open>Engineering core: geometry and performance\<close>

definition circularSegmentArea :: "jsnum \<Rightarrow> jsnum \<Rightarrow> jsnum" where
  "circularSegmentArea r angle =
     (let theta = angle * PI / 180;
          h = r * (1 - Math_cos (theta / 2))
      in if h \<le> 0 then 0
         else r * r * Math_acos ((r - h) / r) - (r - h) * Math_sqrt (2 * r * h - h * h))"

definition dovetailCrossSection ::
  "jsnum \<Rightarrow> jsnum \<Rightarrow> jsnum \<Rightarrow> jsnum \<Rightarrow> jsnum \<Rightarrow> jsnum \<Rightarrow> jsnum" where
  "dovetailCrossSection gw gd ang rTop rBottom gap =
     (let angRad = ang * PI / 180;
          topWidth = gw + 2 * (gd / Math_tan angRad);
          A_trap = 0.5 * (gw + topWidth) * gd;
          A_top = 2 * circularSegmentArea rTop ang;
          A_bottom = 2 * circularSegmentArea rBottom ang;
          A_gap = (gw + 2 * rTop) * gap
      in A_trap + A_top - A_bottom + A_gap)"

text \<open>The parameter object \<^verbatim>\<open>p\<close> of \<^verbatim>\<open>calculateDovetail\<close>; \<open>p_cs\<close> is \<^verbatim>\<open>p.cs\<close>.\<close>

record params =
  p_cs :: jsnum
  p_id :: jsnum
  p_gw :: jsnum
  p_gd :: jsnum
  p_angle :: jsnum
  p_rTop :: jsnum
  p_rBottom :: jsnum
  p_gap :: jsnum
  p_centerline :: jsnum
  p_alpha :: jsnum

record temperatureResult =
  tempC :: jsnum
  compressionPct :: jsnum
  glandFillPct :: jsnum

record calculationResult =
  stretchPct :: jsnum
  glandVolume :: jsnum
  temperatureResults :: "temperatureResult list"

definition calculateDovetail :: "params \<Rightarrow> jsnum list \<Rightarrow> calculationResult" where
  "calculateDovetail p tempsList =
     (let temps = (if length tempsList \<noteq> 0 then tempsList else [AMBIENT]);
          stretch = ((p_centerline p - (p_id p + p_cs p)) / (p_id p + p_cs p)) * 100;
          r = p_cs p / 2;
          R = (p_id p + p_cs p) / 2;
          oringVolume = 2 * PI * PI * r * r * R;
          crossArea = dovetailCrossSection (p_gw p) (p_gd p) (p_angle p)
                        (p_rTop p) (p_rBottom p) (p_gap p);
          gland = crossArea * PI * p_centerline p;
          results = map (\<lambda>t.
              let dT = t - AMBIENT;
                  expandedCS = p_cs p * (1 + p_alpha p * dT);
                  expandedVol = oringVolume * (1 + 3 * p_alpha p * dT)
              in \<lparr>tempC = t,
                  compressionPct = (1 - (p_gd p / expandedCS)) * 100,
                  glandFillPct = (expandedVol / gland) * 100\<rparr>) temps
      in \<lparr>stretchPct = stretch, glandVolume = gland, temperatureResults = results\<rparr>)"

text \<open>
  Step 3 of \<^verbatim>\<open>runCalculation\<close>: the temperature list it hands to
  \<^verbatim>\<open>calculateDovetail\<close>. \<open>tMinC\<close>, \<open>tNomC\<close> and \<open>tMaxC\<close> are what \<^verbatim>\<open>readTempC\<close>
  returned for the three optional fields, \<^verbatim>\<open>NaN\<close> for a field left empty.
\<close>

definition tempsFinal :: "jsnum \<Rightarrow> jsnum \<Rightarrow> jsnum \<Rightarrow> jsnum list" where
  "tempsFinal tMinC tNomC tMaxC =
     (let tAmbientC = AMBIENT;
          temps = [tAmbientC]
                  @ (if Number_isFinite tMinC then [tMinC] else [])
                  @ (if Number_isFinite tNomC then [tNomC] else [])
                  @ (if Number_isFinite tMaxC then [tMaxC] else []);
          uniqSorted = array_sort (\<lambda>a b. a - b) (Set_values [] (drop 1 temps))
      in tAmbientC # uniqSorted)"

text \<open>Steps 3 and 4 of \<^verbatim>\<open>runCalculation\<close>: the result it renders.\<close>

definition runCalculation_out :: "params \<Rightarrow> jsnum \<Rightarrow> jsnum \<Rightarrow> jsnum \<Rightarrow> calculationResult" where
  "runCalculation_out p tMinC tNomC tMaxC = calculateDovetail p (tempsFinal tMinC tNomC tMaxC)"

section \<open>Warning rules\<close>

text \<open>
  The messages are JavaScript strings. The first has the non-breaking hyphen U+2011, the
  per-temperature ones the degree sign U+00B0. \<open>toStr\<close> is the host's conversion of a
  Number to a string, which a template literal applies to \<^verbatim>\<open>t.tempC\<close>.
\<close>

definition msg_loose :: jsstring where
  "msg_loose = js ''O'' @ [0x2011] @ js ''ring is loose (negative stretch).''"

definition msg_exceeds :: jsstring where
  "msg_exceeds = js ''Stretch exceeds recommended 5%.''"

definition msg_compression_low :: "jsstring \<Rightarrow> jsstring" where
  "msg_compression_low t = js ''Compression '' @ t @ [0xB0] @ js ''C < 15%''"

definition msg_compression_high :: "jsstring \<Rightarrow> jsstring" where
  "msg_compression_high t = js ''Compression '' @ t @ [0xB0] @ js ''C > 30%''"

definition msg_fill :: "jsstring \<Rightarrow> jsstring" where
  "msg_fill t = js ''Gland fill '' @ t @ [0xB0] @ js ''C > 95%''"

definition temperatureWarnings :: "(jsnum \<Rightarrow> jsstring) \<Rightarrow> temperatureResult \<Rightarrow> jsstring list" where
  "temperatureWarnings toStr t =
     (if compressionPct t < 15 then [msg_compression_low (toStr (tempC t))] else [])
     @ (if 30 < compressionPct t then [msg_compression_high (toStr (tempC t))] else [])
     @ (if 95 < glandFillPct t then [msg_fill (toStr (tempC t))] else [])"

definition evaluateWarnings :: "(jsnum \<Rightarrow> jsstring) \<Rightarrow> calculationResult \<Rightarrow> jsstring list" where
  "evaluateWarnings toStr out =
     (let warn = (if stretchPct out < 0 then [msg_loose]
                  else if 5 < stretchPct out then [msg_exceeds]
                  else [])
      in foldl (\<lambda>w t. w @ temperatureWarnings toStr t) warn (temperatureResults out))"

section \<open>AS568 catalog parser\<close>

record catalogRow =
  r_dash :: jsstring
  r_cs :: jsnum
  r_id :: jsnum

text \<open>
  \<^verbatim>\<open>arr.map(k => header.indexOf(k)).find(i => i !== -1)\<close>: the index of the first
  synonym the header has, \<^verbatim>\<open>undefined\<close> (\<open>None\<close>) when it has none.
\<close>

definition find_col :: "jsstring list \<Rightarrow> jsstring list \<Rightarrow> int option" where
  "find_col header arr = find (\<lambda>i. i \<noteq> - 1) (map (\<lambda>k. indexOf header k) arr)"

text \<open>
  \<^verbatim>\<open>Math.max\<close> of the three column indices is \<^verbatim>\<open>NaN\<close> as soon as one of them is
  \<^verbatim>\<open>undefined\<close>, and \<^verbatim>\<open>cols.length <= NaN\<close> is false.
\<close>

definition Math_max3 :: "int option \<Rightarrow> int option \<Rightarrow> int option \<Rightarrow> int option" where
  "Math_max3 a b c =
     (case (a, b, c) of
        (Some x, Some y, Some z) \<Rightarrow> Some (max x (max y z))
      | _ \<Rightarrow> None)"

definition length_le :: "'a list \<Rightarrow> int option \<Rightarrow> bool" where
  "length_le cols m = (case m of None \<Rightarrow> False | Some k \<Rightarrow> int (length cols) \<le> k)"

text \<open>
  \<^verbatim>\<open>cols[i]\<close>: \<^verbatim>\<open>undefined\<close> when the index is \<^verbatim>\<open>undefined\<close> or out of range.
\<close>

definition at_index :: "jsstring list \<Rightarrow> int option \<Rightarrow> jsval" where
  "at_index cols i =
     (case i of
        None \<Rightarrow> Undefined
      | Some k \<Rightarrow> if 0 \<le> k \<and> nat k < length cols then Str (cols ! nat k) else Undefined)"

text \<open>\<^verbatim>\<open>!v\<close> for a string or \<^verbatim>\<open>undefined\<close>, and for a Number.\<close>

fun falsy :: "jsval \<Rightarrow> bool" where
  "falsy Undefined = True"
| "falsy (Str s) = (s = [])"
| "falsy (Num n) = (n = 0 \<or> n = NaN)"

fun the_string :: "jsval \<Rightarrow> jsstring" where
  "the_string (Str s) = s"
| "the_string v = []"

text \<open>
  The loop over the data lines. \<open>rows\<close> is the array built so far; each \<^verbatim>\<open>continue\<close>
  of the source is a branch that leaves it unchanged.
\<close>

fun parse_lines ::
  "int option \<Rightarrow> int option \<Rightarrow> int option \<Rightarrow> catalogRow list \<Rightarrow> jsstring list \<Rightarrow> catalogRow list" where
  "parse_lines iDash iCS iID rows [] = rows"
| "parse_lines iDash iCS iID rows (line # lines) =
     (if trim line = [] then parse_lines iDash iCS iID rows lines
      else
        (let cols = map trim (split_comma line) in
         if length_le cols (Math_max3 iDash iCS iID) then parse_lines iDash iCS iID rows lines
         else
           (let dash = at_index cols iDash;
                cs = Number (at_index cols iCS);
                id' = Number (at_index cols iID)
            in if falsy dash \<or> \<not> Number_isFinite cs \<or> \<not> Number_isFinite id'
               then parse_lines iDash iCS iID rows lines
               else parse_lines iDash iCS iID
                      (rows @ [\<lparr>r_dash = the_string dash, r_cs = cs, r_id = id'\<rparr>]) lines)))"

text \<open>The \<^verbatim>\<open>replace\<close> of a byte-order mark U+FEFF at the very start of the text.\<close>

definition strip_bom :: "jsstring \<Rightarrow> jsstring" where
  "strip_bom s = (case s of [] \<Rightarrow> [] | c # r \<Rightarrow> if c = 0xFEFF then r else s)"

text \<open>
  \<^verbatim>\<open>parseAs568Csv(text)\<close>. \<open>localeCompare\<close> is the host's
  \<^verbatim>\<open>a.localeCompare(b, "en", {numeric: true})\<close>, a parameter of the model.
\<close>

definition parseAs568Csv :: "(jsstring \<Rightarrow> jsstring \<Rightarrow> jsnum) \<Rightarrow> jsstring \<Rightarrow> catalogRow list" where
  "parseAs568Csv localeCompare text =
     (let t = trim (strip_bom text) in
      if t = [] then []
      else
        (let all_lines = split_lines t;
             headerLine = hd all_lines;
             lines = tl all_lines;
             header = map (\<lambda>h. toLowerCase (trim h)) (split_comma headerLine);
             iDash = find_col header [js ''dash'', js ''dash size''];
             iCS = find_col header
                     [js ''cs'', js ''o-ring cross section size'', js ''o-ring cross section''];
             iID = find_col header
                     [js ''id'', js ''o-ring internal diameter size'',
                      js ''o-ring internal diameter''];
             rows = parse_lines iDash iCS iID [] lines
         in array_sort (\<lambda>a b. localeCompare (r_dash a) (r_dash b)) rows))"

section \<open>JavaScript numbers as IEEE 754 doubles\<close>

text \<open>
  The second model of a Number, for the claims that depend on rounding, on overflow or on
  the sign of zero. A double is a finite real, the negative zero, an infinity or
  \<^verbatim>\<open>NaN\<close>; \<open>Finite 0\<close> is the positive zero. Every arithmetic operation computes the
  exact result and rounds it to the nearest double, ties to even: the doubles around a
  magnitude \<open>m\<close> are the multiples of \<open>ulp m\<close>, which is \<open>2^(e - 52)\<close> for
  \<open>2^e \<le> m < 2^(e + 1)\<close> and \<open>2^(-1074)\<close> below \<open>2^(-1022)\<close>; a magnitude of at least
  \<open>2^1024 - 2^970\<close> rounds to an infinity.
\<close>

datatype double = Finite real | MinusZero | PlusInfinity | MinusInfinity | NotANumber

text \<open>\<^verbatim>\<open>Number.isFinite\<close>, the real a finite double denotes, and the sign bit.\<close>

fun isFinite_d :: "double \<Rightarrow> bool" where
  "isFinite_d (Finite x) = True"
| "isFinite_d MinusZero = True"
| "isFinite_d d = False"

fun val_d :: "double \<Rightarrow> real" where
  "val_d (Finite x) = x"
| "val_d d = 0"

fun negative :: "double \<Rightarrow> bool" where
  "negative (Finite x) = (x < 0)"
| "negative MinusZero = True"
| "negative MinusInfinity = True"
| "negative d = False"

subsection \<open>Rounding to the nearest double\<close>

definition pow2 :: "int \<Rightarrow> real" where
  "pow2 k = (if 0 \<le> k then 2 ^ nat k else 1 / 2 ^ nat (- k))"

definition ulp :: "real \<Rightarrow> real" where
  "ulp m = pow2 (max \<lfloor>log 2 m\<rfloor> (- 1022) - 52)"

text \<open>The nearest integer, ties to the even one.\<close>

definition rne :: "real \<Rightarrow> int" where
  "rne y =
     (let f = \<lfloor>y\<rfloor>; d = y - of_int f
      in if d < 1 / 2 then f
         else if 1 / 2 < d then f + 1
         else if even f then f else f + 1)"

text \<open>The magnitude of the double nearest to a magnitude \<open>m \<ge> 0\<close> below the overflow threshold.\<close>

definition rnd :: "real \<Rightarrow> real" where
  "rnd m = (if m = 0 then 0 else ulp m * of_int (rne (m / ulp m)))"

definition threshold :: real where
  "threshold = 2 ^ 1024 - 2 ^ 970"

definition signed_zero :: "bool \<Rightarrow> double" where
  "signed_zero neg = (if neg then MinusZero else Finite 0)"

definition infinity :: "bool \<Rightarrow> double" where
  "infinity neg = (if neg then MinusInfinity else PlusInfinity)"

definition make :: "bool \<Rightarrow> real \<Rightarrow> double" where
  "make neg m = (if m = 0 then signed_zero neg else Finite (if neg then - m else m))"

text \<open>The double for a sign and an exact magnitude, and the double for an exact real.\<close>

definition round_to :: "bool \<Rightarrow> real \<Rightarrow> double" where
  "round_to neg m = (if threshold \<le> m then infinity neg else make neg (rnd m))"

definition round_real :: "real \<Rightarrow> double" where
  "round_real x = round_to (x < 0) \<bar>x\<bar>"

subsection \<open>The operators \<^verbatim>\<open>-x\<close>, \<^verbatim>\<open>*\<close>, \<^verbatim>\<open>/\<close>, \<^verbatim>\<open>+\<close>, \<^verbatim>\<open>-\<close> and \<^verbatim>\<open><=\<close>\<close>

text \<open>
  The sign of a product or a quotient is the exclusive or of the signs, also when the
  result is a zero or an infinity; \<^verbatim>\<open>0 * Infinity\<close>, \<^verbatim>\<open>0 / 0\<close>,
  \<^verbatim>\<open>Infinity / Infinity\<close> and \<^verbatim>\<open>Infinity - Infinity\<close> are \<^verbatim>\<open>NaN\<close>; an exact sum
  \<open>0\<close> is \<^verbatim>\<open>-0\<close> only when both summands are negative; every comparison with
  \<^verbatim>\<open>NaN\<close> is false.
\<close>

fun fneg :: "double \<Rightarrow> double" where
  "fneg (Finite x) = (if x = 0 then MinusZero else Finite (- x))"
| "fneg MinusZero = Finite 0"
| "fneg PlusInfinity = MinusInfinity"
| "fneg MinusInfinity = PlusInfinity"
| "fneg NotANumber = NotANumber"

definition fmul :: "double \<Rightarrow> double \<Rightarrow> double" where
  "fmul a b =
     (if a = NotANumber \<or> b = NotANumber then NotANumber
      else if isFinite_d a \<and> isFinite_d b
        then round_to (negative a \<noteq> negative b) (\<bar>val_d a\<bar> * \<bar>val_d b\<bar>)
      else if (isFinite_d a \<and> val_d a = 0) \<or> (isFinite_d b \<and> val_d b = 0) then NotANumber
      else infinity (negative a \<noteq> negative b))"

definition fdiv :: "double \<Rightarrow> double \<Rightarrow> double" where
  "fdiv a b =
     (if a = NotANumber \<or> b = NotANumber then NotANumber
      else if isFinite_d a \<and> isFinite_d b
        then (if val_d b = 0
              then (if val_d a = 0 then NotANumber else infinity (negative a \<noteq> negative b))
              else round_to (negative a \<noteq> negative b) (\<bar>val_d a\<bar> / \<bar>val_d b\<bar>))
      else if isFinite_d a then signed_zero (negative a \<noteq> negative b)
      else if isFinite_d b then infinity (negative a \<noteq> negative b)
      else NotANumber)"

definition fadd :: "double \<Rightarrow> double \<Rightarrow> double" where
  "fadd a b =
     (if a = NotANumber \<or> b = NotANumber then NotANumber
      else if isFinite_d a \<and> isFinite_d b
        then (let x = val_d a + val_d b
              in if x = 0 then signed_zero (negative a \<and> negative b)
                 else round_to (x < 0) \<bar>x\<bar>)
      else if isFinite_d a then b
      else if isFinite_d b then a
      else if a = b then a else NotANumber)"

definition fsub :: "double \<Rightarrow> double \<Rightarrow> double" where
  "fsub a b = fadd a (fneg b)"

definition fle :: "double \<Rightarrow> double \<Rightarrow> bool" where
  "fle a b =
     (if a = NotANumber \<or> b = NotANumber then False
      else if a = MinusInfinity \<or> b = PlusInfinity then True
      else if isFinite_d a \<and> isFinite_d b then val_d a \<le> val_d b
      else False)"

subsection \<open>\<^verbatim>\<open>Math.PI\<close>, \<^verbatim>\<open>Math.cos\<close>, \<^verbatim>\<open>Math.tan\<close>, \<^verbatim>\<open>Math.acos\<close> and \<^verbatim>\<open>Math.sqrt\<close>\<close>

text \<open>
  \<^verbatim>\<open>Math.PI\<close> is the double \<^verbatim>\<open>0x400921FB54442D18\<close>, which is
  \<open>884279719003555 / 2^48\<close>, a little below \<open>\<pi>\<close>. The four functions are taken as
  correctly rounded: the double nearest to the exact value at the argument. ECMAScript
  leaves the precision of \<^verbatim>\<open>cos\<close>, \<^verbatim>\<open>tan\<close> and \<^verbatim>\<open>acos\<close> to the implementation, so
  a last bit of their results may differ in an engine. The tangent of a zero is that
  zero; the branch at a vanishing cosine is never taken at a double.
\<close>

definition PI_d :: double where
  "PI_d = Finite (884279719003555 / 2 ^ 48)"

definition cos_d :: "double \<Rightarrow> double" where
  "cos_d a = (if isFinite_d a then round_real (cos (val_d a)) else NotANumber)"


definition acos_d :: "double \<Rightarrow> double" where
  "acos_d a =
     (if isFinite_d a \<and> \<bar>val_d a\<bar> \<le> 1 then round_real (arccos (val_d a)) else NotANumber)"

fun sqrt_d :: "double \<Rightarrow> double" where
  "sqrt_d (Finite x) = (if x < 0 then NotANumber else round_real (sqrt x))"
| "sqrt_d MinusZero = MinusZero"
| "sqrt_d PlusInfinity = PlusInfinity"
| "sqrt_d d = NotANumber"

subsection \<open>The functions of the program on doubles\<close>

text \<open>
  \<^verbatim>\<open>Number(value)\<close> on doubles: the literal's exact value, as read by
  \<^const>\<open>nonDecimal\<close> and \<^const>\<open>unsignedDecimal\<close>, rounded to the nearest double; a
  leading minus sign gives the sign, also of a zero.
\<close>

definition StringToNumber_d :: "jsstring \<Rightarrow> double" where
  "StringToNumber_d str =
     (let s = trim str in
      if s = [] then Finite 0
      else case nonDecimal s of
        Some v \<Rightarrow> round_real v
      | None \<Rightarrow>
          (let neg = (hd s = 0x2D);
               u = (if hd s = 0x2D \<or> hd s = 0x2B then tl s else s)
           in if u = js ''Infinity'' then infinity neg
              else case unsignedDecimal u of
                None \<Rightarrow> NotANumber
              | Some v \<Rightarrow> round_to neg v))"

datatype jsval_d = Num_d double | Str_d jsstring | Undefined_d

fun Number_d :: "jsval_d \<Rightarrow> double" where
  "Number_d (Num_d n) = n"
| "Number_d (Str_d s) = StringToNumber_d s"
| "Number_d Undefined_d = NotANumber"

text \<open>The constant \<^verbatim>\<open>IN_TO_MM = 25.4\<close> is the double nearest to \<open>25.4\<close>.\<close>

definition IN_TO_MM_d :: double where
  "IN_TO_MM_d = round_real 25.4"

text \<open>
  \<^verbatim>\<open>convert\<close>, \<^verbatim>\<open>circularSegmentArea\<close> and \<^verbatim>\<open>dovetailCrossSection\<close> once more, line by
  line as above, with every operator and every call of \<^verbatim>\<open>Math\<close> on doubles.
  \<^verbatim>\<open>num * 9/5 + 32\<close> is \<^verbatim>\<open>((num * 9) / 5) + 32\<close> and \<^verbatim>\<open>(num - 32) * 5/9\<close> is
  \<^verbatim>\<open>((num - 32) * 5) / 9\<close>, three rounded operations each.
\<close>

definition convert_d :: "jsval_d \<Rightarrow> jsstring \<Rightarrow> jsstring \<Rightarrow> jsval_d" where
  "convert_d value from to =
     (let num = Number_d value in
      if \<not> isFinite_d num then Str_d []
      else if from = to then Num_d num
      else if from = js ''in'' \<and> to = js ''mm'' then Num_d (fmul num IN_TO_MM_d)
      else if from = js ''mm'' \<and> to = js ''in'' then Num_d (fdiv num IN_TO_MM_d)
      else if from = js ''C'' \<and> to = js ''F''
        then Num_d (fadd (fdiv (fmul num (Finite 9)) (Finite 5)) (Finite 32))
      else if from = js ''F'' \<and> to = js ''C''
        then Num_d (fdiv (fmul (fsub num (Finite 32)) (Finite 5)) (Finite 9))
      else Num_d num)"

definition circularSegmentArea_d :: "double \<Rightarrow> double \<Rightarrow> double" where
  "circularSegmentArea_d r angle =
     (let theta = fdiv (fmul angle PI_d) (Finite 180);
          h = fmul r (fsub (Finite 1) (cos_d (fdiv theta (Finite 2))))
      in if fle h (Finite 0) then Finite 0
         else fsub (fmul (fmul r r) (acos_d (fdiv (fsub r h) r)))
                   (fmul (fsub r h)
                      (sqrt_d (fsub (fmul (fmul (Finite 2) r) h) (fmul h h)))))"


section \<open>Closed forms of the two areas\<close>

text \<open>
  The area of a circular segment of radius \<open>r\<close> that subtends \<open>angle\<close> degrees, as the
  textbook has it: \<open>r\<^sup>2 (\<theta> - sin \<theta>) / 2\<close> with \<open>\<theta>\<close> the angle in radians, written
  with the half angle \<open>\<theta>/2 = angle \<cdot> \<pi>/360\<close>; no area for a radius that is not positive.
\<close>

definition segment_area_real :: "real \<Rightarrow> real \<Rightarrow> real" where
  "segment_area_real r angle =
     (if 0 < r then r\<^sup>2 * (angle * pi / 360 - sin (angle * pi / 360) * cos (angle * pi / 360))
      else 0)"

text \<open>
  The dovetail cross-section with the taper written as a cotangent, \<open>gd \<cdot> cos / sin\<close>,
  which has no pole inside \<open>(0\<degree>, 180\<degree>)\<close>.
\<close>

definition dovetail_area_real :: "real \<Rightarrow> real \<Rightarrow> real \<Rightarrow> real \<Rightarrow> real \<Rightarrow> real \<Rightarrow> real" where
  "dovetail_area_real gw gd ang rTop rBottom gap =
     gd * (gw + gd * cos (ang * pi / 180) / sin (ang * pi / 180))
     + 2 * segment_area_real rTop ang - 2 * segment_area_real rBottom ang
     + (gw + 2 * rTop) * gap"

section \<open>The calculation as the specification words it\<close>

text \<open>
  The formulas of the thermal calculator in the specification's grouping: the nominal
  volume of the seal as the torus \<open>2 \<pi>\<^sup>2 r\<^sup>2 R\<close> with \<open>r = cs/2\<close> and
  \<open>R = (id + cs)/2\<close>, the gland volume as cross-section area times \<open>\<pi>\<close> times the
  centerline, and per temperature \<open>T\<close>, with \<open>\<Delta>T = T - 23\<close>, the expanded cross-section,
  the expanded volume, the compression and the gland fill.
\<close>

definition spec_expandedCrossSection :: "params \<Rightarrow> jsnum \<Rightarrow> jsnum" where
  "spec_expandedCrossSection p T = p_cs p * (1 + p_alpha p * (T - 23))"

definition spec_nominalVolume :: "params \<Rightarrow> jsnum" where
  "spec_nominalVolume p =
     2 * (PI * PI) * ((p_cs p / 2) * (p_cs p / 2)) * ((p_id p + p_cs p) / 2)"

definition spec_expandedVolume :: "params \<Rightarrow> jsnum \<Rightarrow> jsnum" where
  "spec_expandedVolume p T = spec_nominalVolume p * (1 + 3 * p_alpha p * (T - 23))"

definition spec_glandVolume :: "params \<Rightarrow> jsnum" where
  "spec_glandVolume p =
     dovetailCrossSection (p_gw p) (p_gd p) (p_angle p) (p_rTop p) (p_rBottom p) (p_gap p)
       * (PI * p_centerline p)"

definition spec_entry :: "params \<Rightarrow> jsnum \<Rightarrow> temperatureResult" where
  "spec_entry p T =
     \<lparr>tempC = T,
      compressionPct = (1 - p_gd p / spec_expandedCrossSection p T) * 100,
      glandFillPct = spec_expandedVolume p T / spec_glandVolume p * 100\<rparr>"

text \<open>The geometry of the specification's worked example.\<close>

definition example_params :: params where
  "example_params =
     \<lparr>p_cs = 2.0, p_id = 50, p_gw = 2.5, p_gd = 1.8, p_angle = 45, p_rTop = 0.3,
      p_rBottom = 0.2, p_gap = 0.1, p_centerline = 52, p_alpha = 0.000175\<rparr>"

section \<open>The catalog table as the specification words it\<close>

text \<open>
  What \<^verbatim>\<open>parseAs568Csv\<close> reads off a table: its lines, the header names, the data lines
  and the three column indices.
\<close>

definition csv_lines :: "jsstring \<Rightarrow> jsstring list" where
  "csv_lines text = split_lines (trim (strip_bom text))"

definition csv_header :: "jsstring \<Rightarrow> jsstring list" where
  "csv_header text = map (\<lambda>h. toLowerCase (trim h)) (split_comma (hd (csv_lines text)))"

definition data_lines :: "jsstring \<Rightarrow> jsstring list" where
  "data_lines text = tl (csv_lines text)"

definition col_dash :: "jsstring \<Rightarrow> int option" where
  "col_dash text = find_col (csv_header text) [js ''dash'', js ''dash size'']"

definition col_cs :: "jsstring \<Rightarrow> int option" where
  "col_cs text = find_col (csv_header text)
     [js ''cs'', js ''o-ring cross section size'', js ''o-ring cross section'']"

definition col_id :: "jsstring \<Rightarrow> int option" where
  "col_id text = find_col (csv_header text)
     [js ''id'', js ''o-ring internal diameter size'', js ''o-ring internal diameter'']"

definition row_columns :: "jsstring \<Rightarrow> jsstring list" where
  "row_columns line = map trim (split_comma line)"

text \<open>
  The rows the specification drops, for a header whose columns are at the indices \<open>d\<close>
  (dash), \<open>c\<close> (cross-section) and \<open>i\<close> (internal diameter): a blank row, a row with no
  column at the highest of the three indices, a row with an empty dash identifier, and a
  row whose cross-section or internal diameter is not a finite number.
\<close>

definition row_dropped :: "int \<Rightarrow> int \<Rightarrow> int \<Rightarrow> jsstring \<Rightarrow> bool" where
  "row_dropped d c i line \<longleftrightarrow>
     (if trim line = [] then True
      else if int (length (row_columns line)) \<le> max d (max c i) then True
      else row_columns line ! nat d = []
           \<or> \<not> Number_isFinite (StringToNumber (row_columns line ! nat c))
           \<or> \<not> Number_isFinite (StringToNumber (row_columns line ! nat i)))"

definition row_of :: "int \<Rightarrow> int \<Rightarrow> int \<Rightarrow> jsstring \<Rightarrow> catalogRow" where
  "row_of d c i line =
     \<lparr>r_dash = row_columns line ! nat d,
      r_cs = StringToNumber (row_columns line ! nat c),
      r_id = StringToNumber (row_columns line ! nat i)\<rparr>"

text \<open>The table of the specification's example: a header and two data rows.\<close>

definition example_table :: jsstring where
  "example_table = js ''Dash,CS,ID\<newline>004,1.02,1.78\<newline>1x3,abc,2.0''"

section \<open>The round trip of a conversion as the specification words it\<close>

text \<open>
  Converting a number from unit \<open>A\<close> to \<open>B\<close> and back. The result is close to \<open>x\<close> when it
  is a finite number within the tolerance of \<open>x\<close>; it has overflowed when it is the empty
  string (the inner conversion gave an infinity, which the outer one refuses) or an
  infinity. The tolerances are a few units in the last place: of \<open>x\<close> for a length, of
  \<open>\<bar>x\<bar> + 32\<close> for a temperature.
\<close>

definition round_trip :: "double \<Rightarrow> jsstring \<Rightarrow> jsstring \<Rightarrow> jsval_d" where
  "round_trip v A B = convert_d (convert_d (Num_d v) A B) B A"

definition overflowed :: "jsval_d \<Rightarrow> bool" where
  "overflowed res = (res = Str_d [] \<or> res = Num_d PlusInfinity \<or> res = Num_d MinusInfinity)"

definition close_to :: "jsval_d \<Rightarrow> real \<Rightarrow> real \<Rightarrow> bool" where
  "close_to res x tol =
     (case res of Num_d u \<Rightarrow> isFinite_d u \<and> \<bar>val_d u - x\<bar> \<le> tol | _ \<Rightarrow> False)"

definition length_tolerance :: "real \<Rightarrow> real" where
  "length_tolerance x = \<bar>x\<bar> / 2 ^ 51 + 1 / 2 ^ 1070"

definition temperature_tolerance :: "real \<Rightarrow> real" where
  "temperature_tolerance x = (\<bar>x\<bar> + 32) / 2 ^ 50"

text \<open>
  A double is an infinity; and a double \<open>d\<close> approximates the exact real \<open>x\<close> to within
  \<open>e\<close> unless an operation before it has overflowed.
\<close>

definition isInf :: "double \<Rightarrow> bool" where
  "isInf d = (d = PlusInfinity \<or> d = MinusInfinity)"

definition near :: "double \<Rightarrow> real \<Rightarrow> real \<Rightarrow> bool" where
  "near d x e = (isInf d \<or> (isFinite_d d \<and> \<bar>val_d d - x\<bar> \<le> e))"

section \<open>Arithmetic of finite Numbers\<close>

lemma numeral_jsnum: "(numeral n :: jsnum) = Fin (numeral n)"
  by (induction n) (simp_all only: numeral.simps one_jsnum_def plus_jsnum.simps)

lemma Fin_minus: "Fin x - Fin y = Fin (x - y)"
  by (simp add: minus_jsnum_def)

lemmas jsnum_consts = numeral_jsnum zero_jsnum_def one_jsnum_def

lemma Fin_power: "Fin x ^ n = Fin (x ^ n)"
  by (induction n) (simp_all add: one_jsnum_def)

lemma js_Cons: "js (c # s) = of_char c # js s"
  by (simp add: js_def)

section \<open>Unit conversion\<close>

text \<open>
  Claim C3, as the code has it: \<^verbatim>\<open>convert\<close> has no error path. For a finite value and
  two different units that are none of the four supported ordered pairs, it returns the
  value unchanged, as a Number.
\<close>

theorem convert_unsupported_returns_value:
  assumes "Number_isFinite (Number v)" and "from \<noteq> to"
    and "(from, to) \<notin> {(js ''in'', js ''mm''), (js ''mm'', js ''in''),
                        (js ''C'', js ''F''), (js ''F'', js ''C'')}"
  shows "convert v from to = Num (Number v)"
  using assms by (auto simp: convert_def)

text \<open>The theorem at \<^verbatim>\<open>convert(5, "in", "C")\<close>.\<close>

theorem convert_unsupported_returns_value_witness:
  "convert (Num (Fin 5)) (js ''in'') (js ''C'') = Num (Number (Num (Fin 5)))"
  using convert_unsupported_returns_value [of "Num (Fin 5)" "js ''in''" "js ''C''"]
  by (simp add: js_def)

text \<open>
  Against claim C3 as stated (an unsupported pair fails and returns no number):
  \<^verbatim>\<open>convert(5, "in", "C")\<close> returns the number \<^verbatim>\<open>5\<close>.
\<close>

theorem convert_unsupported_counterexample:
  "convert (Num (Fin 5)) (js ''in'') (js ''C'') = Num (Fin 5)"
  by (simp add: convert_def js_def)

section \<open>The circular segment\<close>

lemma x_minus_sin_cos_pos:
  fixes x :: real
  assumes "0 < x" "x < pi"
  shows "0 < x - sin x * cos x"
proof -
  have s: "0 < sin x" using assms by (rule sin_gt_zero)
  have "cos x < cos 0" using assms by (intro cos_monotone_0_pi) auto
  then have "sin x * cos x < sin x * 1" using s by (intro mult_strict_left_mono) auto
  moreover have "sin x \<le> x" using assms by (intro sin_x_le_x) auto
  ultimately show ?thesis by simp
qed

lemma chord_height_pos:
  fixes r x :: real
  assumes "0 < r" "0 < x" "x < pi"
  shows "0 < r * (1 - cos x)"
proof -
  have "cos x < cos 0" using assms by (intro cos_monotone_0_pi) auto
  then show ?thesis using assms by simp
qed

text \<open>
  For a positive radius and an angle inside \<open>(0\<degree>, 360\<degree>)\<close> the chord height is positive,
  the arguments of \<^verbatim>\<open>Math.acos\<close> and \<^verbatim>\<open>Math.sqrt\<close> are in range, and the program's
  expression is the textbook area.
\<close>

lemma circularSegmentArea_closed:
  assumes "0 < r" "0 < a" "a < 360"
  shows "circularSegmentArea (Fin r) (Fin a) = Fin (segment_area_real r a)"
proof -
  define x where "x = a * pi / 360"
  have x: "0 < x" "x < pi" using assms by (simp_all add: x_def)
  define c where "c = cos x"
  define h where "h = r * (1 - c)"
  have hpos: "0 < h" unfolding h_def c_def using assms(1) x by (rule chord_height_pos)
  have c1: "- 1 \<le> c" "c \<le> 1" by (simp_all add: c_def)
  have q: "(r - h) / r = c" using assms(1) by (simp add: h_def field_simps)
  have "2 * r * h - h * h = (r * sin x)\<^sup>2"
    by (simp add: h_def c_def power2_eq_square algebra_simps
          sin_squared_eq [unfolded power2_eq_square])
  moreover have "0 \<le> r * sin x" using assms(1) x sin_gt_zero [of x] by simp
  ultimately have sq: "0 \<le> 2 * r * h - h * h" "sqrt (2 * r * h - h * h) = r * sin x"
    by simp_all
  have ac: "arccos c = x" unfolding c_def using x by (intro arccos_cos) auto
  have th: "Fin a * PI / 180 / 2 = Fin x"
    by (simp add: PI_def jsnum_consts x_def)
  have hh: "Fin r * (1 - Math_cos (Fin x)) = Fin h"
    by (simp add: jsnum_consts Fin_minus h_def c_def)
  have hle: "\<not> Fin h \<le> 0"
    using hpos by (simp add: zero_jsnum_def)
  have q': "(Fin r - Fin h) / Fin r = Fin c"
    using q assms(1) by (simp add: Fin_minus)
  have ac': "Math_acos (Fin c) = Fin x"
    using c1 ac by simp
  have sq': "Math_sqrt (2 * Fin r * Fin h - Fin h * Fin h) = Fin (r * sin x)"
    using sq by (simp add: jsnum_consts Fin_minus)
  have "circularSegmentArea (Fin r) (Fin a)
        = Fin r * Fin r * Fin x - (Fin r - Fin h) * Fin (r * sin x)"
    unfolding circularSegmentArea_def Let_def th hh q' ac' sq' using hle by simp
  also have "\<dots> = Fin (r * r * x - (r - h) * (r * sin x))"
    by (simp add: Fin_minus)
  also have "r * r * x - (r - h) * (r * sin x) = r\<^sup>2 * (x - sin x * cos x)"
    by (simp add: h_def c_def power2_eq_square algebra_simps)
  also have "\<dots> = segment_area_real r a"
    using assms(1) unfolding segment_area_real_def x_def by simp
  finally show ?thesis .
qed

lemma circularSegmentArea_nonpos_radius:
  assumes "r \<le> 0"
  shows "circularSegmentArea (Fin r) (Fin a) = 0"
proof -
  have "r * (1 - cos (a * pi / 180 / 2)) \<le> 0"
    using assms by (simp add: mult_nonpos_nonneg)
  then show ?thesis
    by (simp add: circularSegmentArea_def Let_def PI_def jsnum_consts Fin_minus)
qed

lemma circularSegmentArea_real:
  assumes "0 < a" "a < 360"
  shows "circularSegmentArea (Fin r) (Fin a) = Fin (segment_area_real r a)"
proof (cases "0 < r")
  case True
  then show ?thesis using assms by (rule circularSegmentArea_closed)
next
  case False
  then show ?thesis
    using circularSegmentArea_nonpos_radius [of r a]
    by (simp add: segment_area_real_def zero_jsnum_def)
qed

section \<open>The dovetail cross-section\<close>

lemma quotient_by_tan:
  assumes "0 < a" "a < pi"
  shows "Fin gd / Math_tan (Fin a) = Fin (gd * cos a / sin a)"
proof (cases "cos a = 0")
  case True
  then show ?thesis by simp
next
  case False
  have "sin a \<noteq> 0" using sin_gt_zero [OF assms] by simp
  then have "tan a \<noteq> 0" using False by (simp add: tan_def)
  then show ?thesis using False by (simp add: tan_def)
qed

lemma dovetailCrossSection_closed:
  assumes "0 < ang" "ang < 180"
  shows "dovetailCrossSection (Fin gw) (Fin gd) (Fin ang) (Fin rTop) (Fin rBottom) (Fin gap)
         = Fin (dovetail_area_real gw gd ang rTop rBottom gap)"
proof -
  define a where "a = ang * pi / 180"
  have a: "0 < a" "a < pi" using assms by (simp_all add: a_def)
  have ar: "Fin ang * PI / 180 = Fin a"
    by (simp add: PI_def jsnum_consts a_def)
  have tq: "Fin gd / Math_tan (Fin a) = Fin (gd * cos a / sin a)"
    using a by (rule quotient_by_tan)
  have seg: "circularSegmentArea (Fin r) (Fin ang) = Fin (segment_area_real r ang)" for r
    using assms by (intro circularSegmentArea_real) auto
  show ?thesis
    unfolding dovetailCrossSection_def Let_def ar tq seg
    by (simp add: jsnum_consts Fin_minus dovetail_area_real_def a_def algebra_simps)
qed

section \<open>The thermal calculation\<close>

text \<open>
  Claim C6: the result has one entry per temperature of the computed list (the list
  given, or \<open>[23]\<close> when it is empty), in order, and each entry holds the temperature, the
  compression \<open>(1 - gd / (cs (1 + \<alpha> \<Delta>T))) \<cdot> 100\<close> and the gland fill
  \<open>(nominal volume \<cdot> (1 + 3 \<alpha> \<Delta>T)) / gland volume \<cdot> 100\<close>; the gland volume is the
  dovetail cross-section area times \<open>\<pi>\<close> times the centerline.
\<close>

theorem calculateDovetail_entries:
  "temperatureResults (calculateDovetail p temps)
     = map (spec_entry p) (if temps = [] then [AMBIENT] else temps)
   \<and> glandVolume (calculateDovetail p temps) = spec_glandVolume p"
  by (simp add: calculateDovetail_def Let_def spec_entry_def spec_expandedCrossSection_def
        spec_expandedVolume_def spec_nominalVolume_def spec_glandVolume_def AMBIENT_def
        mult.assoc)

lemma dovetail_area_real_example: "0 < dovetail_area_real 2.5 1.8 45 0.3 0.2 0.1"
proof -
  define f :: real where "f = 45 * pi / 360 - sin (45 * pi / 360) * cos (45 * pi / 360)"
  have f: "0 < f" unfolding f_def by (intro x_minus_sin_cos_pos) auto
  have seg: "segment_area_real r 45 = r\<^sup>2 * f" if "0 < r" for r
    using that by (simp add: segment_area_real_def f_def)
  have cs: "cos (45 * pi / 180) / sin (45 * pi / 180) = 1"
  proof -
    have "(45::real) * pi / 180 = pi / 4" by simp
    then show ?thesis by (simp only: cos_45 sin_45) simp
  qed
  have "dovetail_area_real 2.5 1.8 45 0.3 0.2 0.1
        = 1.8 * (2.5 + 1.8 * (cos (45 * pi / 180) / sin (45 * pi / 180)))
          + 2 * (0.3\<^sup>2 * f) - 2 * (0.2\<^sup>2 * f) + (2.5 + 2 * 0.3) * 0.1"
    by (simp add: dovetail_area_real_def seg)
  also have "\<dots> = 8.05 + 0.1 * f"
    unfolding cs by (simp add: power2_eq_square)
  finally show ?thesis using f by simp
qed

text \<open>
  Claim C5: the stretch percentage is \<open>((centerline - (id + cs)) / (id + cs)) \<cdot> 100\<close>, one
  field of the result, the same for every temperature list; for the example geometry
  with no temperatures it is \<open>0\<close>, and the result has exactly one entry, for 23 degrees,
  with compression \<open>10\<close> and a finite gland fill.
\<close>

theorem calculateDovetail_stretch:
  "stretchPct (calculateDovetail p temps)
     = ((p_centerline p - (p_id p + p_cs p)) / (p_id p + p_cs p)) * 100
   \<and> stretchPct (calculateDovetail p temps) = stretchPct (calculateDovetail p temps')
   \<and> stretchPct (calculateDovetail example_params []) = 0
   \<and> (\<exists>e. temperatureResults (calculateDovetail example_params []) = [e]
          \<and> tempC e = 23 \<and> compressionPct e = 10
          \<and> Number_isFinite (compressionPct e) \<and> Number_isFinite (glandFillPct e))"
proof -
  have cross: "dovetailCrossSection 2.5 1.8 45 0.3 0.2 0.1
               = Fin (dovetail_area_real 2.5 1.8 45 0.3 0.2 0.1)"
    using dovetailCrossSection_closed [of 45 "2.5" "1.8" "0.3" "0.2" "0.1"]
    by (simp add: jsnum_consts)
  have general: "stretchPct (calculateDovetail q ts)
     = ((p_centerline q - (p_id q + p_cs q)) / (p_id q + p_cs q)) * 100" for q ts
    by (simp add: calculateDovetail_def Let_def)
  have ex0: "stretchPct (calculateDovetail example_params []) = 0"
    unfolding general by (simp add: example_params_def jsnum_consts Fin_minus)
  have ex1: "\<exists>e. temperatureResults (calculateDovetail example_params []) = [e]
          \<and> tempC e = 23 \<and> compressionPct e = 10
          \<and> Number_isFinite (compressionPct e) \<and> Number_isFinite (glandFillPct e)"
    using dovetail_area_real_example
    by (simp add: calculateDovetail_def Let_def example_params_def cross AMBIENT_def PI_def)
       (simp add: jsnum_consts Fin_minus Fin_power)
  show ?thesis using general ex0 ex1 by simp
qed

section \<open>The temperature list of a calculation run\<close>

lemma set_Set_values: "set (Set_values seen xs) = set seen \<union> set xs"
  by (induction xs arbitrary: seen) auto

lemma distinct_Set_values: "distinct seen \<Longrightarrow> distinct (Set_values seen xs)"
  by (induction xs arbitrary: seen) auto

lemma set_sort_insert: "set (sort_insert cmp x ys) = insert x (set ys)"
  by (induction ys) auto

lemma set_foldl_sort_insert:
  "set (foldl (\<lambda>acc x. sort_insert cmp x acc) acc xs) = set acc \<union> set xs"
  by (induction xs arbitrary: acc) (auto simp: set_sort_insert)

lemma jsnum_less_trans: "a < b \<Longrightarrow> b < c \<Longrightarrow> a < c" for a b c :: jsnum
  by (cases a; cases b; cases c) simp_all

lemma jsnum_less_irrefl: "\<not> a < a" for a :: jsnum
  by (cases a) simp_all

lemma finite_difference_negative:
  "Number_isFinite a \<Longrightarrow> Number_isFinite b \<Longrightarrow> (a - b < 0) = (a < b)"
  by (cases a; cases b) (simp_all add: Fin_minus zero_jsnum_def)

lemma finite_trichotomy:
  "Number_isFinite a \<Longrightarrow> Number_isFinite b \<Longrightarrow> a \<noteq> b \<Longrightarrow> \<not> a < b \<Longrightarrow> b < a"
  by (cases a; cases b) auto

lemma sorted_sort_insert:
  assumes "Number_isFinite x" "\<forall>y\<in>set ys. Number_isFinite y" "x \<notin> set ys"
    "sorted_wrt (<) ys"
  shows "sorted_wrt (<) (sort_insert (\<lambda>a b. a - b) x ys)"
  using assms
proof (induction ys)
  case Nil
  then show ?case by simp
next
  case (Cons y ys)
  show ?case
  proof (cases "x < y")
    case True
    then have "\<forall>z\<in>set ys. x < z"
      using Cons.prems(4) by (auto intro: jsnum_less_trans)
    then show ?thesis
      using True Cons.prems by (simp add: finite_difference_negative)
  next
    case False
    then have "y < x"
      using Cons.prems by (intro finite_trichotomy) auto
    then show ?thesis
      using False Cons by (simp add: finite_difference_negative set_sort_insert)
  qed
qed

lemma sorted_foldl_sort_insert:
  assumes "\<forall>x\<in>set acc \<union> set xs. Number_isFinite x" "distinct xs"
    "set acc \<inter> set xs = {}" "sorted_wrt (<) acc"
  shows "sorted_wrt (<) (foldl (\<lambda>acc x. sort_insert (\<lambda>a b. a - b) x acc) acc xs)"
  using assms
proof (induction xs arbitrary: acc)
  case Nil
  then show ?case by simp
next
  case (Cons x xs)
  have "sorted_wrt (<) (sort_insert (\<lambda>a b. a - b) x acc)"
    using Cons.prems by (intro sorted_sort_insert) auto
  then show ?case
    using Cons.prems by (auto intro!: Cons.IH simp: set_sort_insert)
qed

lemma strictly_sorted_distinct: "sorted_wrt (<) xs \<Longrightarrow> distinct xs" for xs :: "jsnum list"
  by (induction xs) (auto simp: jsnum_less_irrefl)

lemma tempC_calculateDovetail:
  "map tempC (temperatureResults (calculateDovetail p ts)) = (if ts = [] then [AMBIENT] else ts)"
  by (simp add: calculateDovetail_def Let_def comp_def)

lemma tempsFinal_eq:
  "tempsFinal tMinC tNomC tMaxC
   = AMBIENT # array_sort (\<lambda>a b. a - b)
       (Set_values [] (filter Number_isFinite [tMinC, tNomC, tMaxC]))"
  by (simp add: tempsFinal_def Let_def)

text \<open>
  Claim C2: whatever the three optional temperatures are, the result a calculation run
  renders has the entry for the ambient 23 degrees first, followed by the finite supplied
  temperatures, each once, in strictly ascending order. (\<^verbatim>\<open>runCalculation\<close> builds that
  list; \<^verbatim>\<open>calculateDovetail\<close> itself takes the list it is given and only replaces an
  empty one by \<open>[23]\<close>.)
\<close>

theorem runCalculation_temperature_entries:
  "AMBIENT = 23
   \<and> (\<exists>rest. map tempC (temperatureResults (runCalculation_out p tMinC tNomC tMaxC))
                = AMBIENT # rest
          \<and> sorted_wrt (<) rest \<and> distinct rest
          \<and> set rest = {t \<in> {tMinC, tNomC, tMaxC}. Number_isFinite t})"
proof -
  let ?sup = "filter Number_isFinite [tMinC, tNomC, tMaxC]"
  let ?u = "Set_values [] ?sup"
  let ?rest = "array_sort (\<lambda>a b. a - b) ?u"
  have m: "map tempC (temperatureResults (runCalculation_out p tMinC tNomC tMaxC))
           = AMBIENT # ?rest"
    by (simp only: runCalculation_out_def tempC_calculateDovetail tempsFinal_eq) simp
  have su: "set ?u = {t \<in> {tMinC, tNomC, tMaxC}. Number_isFinite t}"
    by (auto simp: set_Set_values)
  have du: "distinct ?u"
    by (rule distinct_Set_values) simp
  have sr: "set ?rest = set ?u"
    by (simp add: array_sort_def set_foldl_sort_insert)
  have so: "sorted_wrt (<) ?rest"
    unfolding array_sort_def using du su
    by (intro sorted_foldl_sort_insert) auto
  show ?thesis
    using m su sr so strictly_sorted_distinct [OF so] by (simp add: AMBIENT_def)
qed

section \<open>The warning rules for the stretch\<close>

lemma set_foldl_append:
  "set (foldl (\<lambda>w t. w @ f t) warn ts) = set warn \<union> (\<Union>t\<in>set ts. set (f t))"
  by (induction ts arbitrary: warn) auto

lemma msg_loose_not_temperature: "msg_loose \<notin> set (temperatureWarnings toStr t)"
  by (simp add: temperatureWarnings_def msg_loose_def msg_compression_low_def
        msg_compression_high_def msg_fill_def js_Cons)

lemma msg_exceeds_not_temperature: "msg_exceeds \<notin> set (temperatureWarnings toStr t)"
  by (simp add: temperatureWarnings_def msg_exceeds_def msg_compression_low_def
        msg_compression_high_def msg_fill_def js_Cons)

lemma msg_loose_neq_exceeds: "msg_loose \<noteq> msg_exceeds"
  by (simp add: msg_loose_def msg_exceeds_def js_Cons)

lemma not_neg_and_above: "\<not> ((s::jsnum) < 0 \<and> 5 < s)"
  by (cases s) (simp_all add: jsnum_consts)

lemma in_band_silent: "(0::jsnum) \<le> s \<Longrightarrow> s \<le> 5 \<Longrightarrow> \<not> s < 0 \<and> \<not> 5 < s"
  by (cases s) (simp_all add: jsnum_consts)

text \<open>
  Claim C7: the list of warnings holds the stretch-loose message exactly when the stretch
  is below \<open>0\<close> and the stretch-exceeds message exactly when it is above \<open>5\<close>; never
  both; and neither for a stretch in \<open>[0, 5]\<close>. This holds whatever the per-temperature
  entries are and however the host formats a temperature.
\<close>

theorem evaluateWarnings_stretch:
  "(msg_loose \<in> set (evaluateWarnings toStr out) \<longleftrightarrow> stretchPct out < 0)
   \<and> (msg_exceeds \<in> set (evaluateWarnings toStr out) \<longleftrightarrow> 5 < stretchPct out)
   \<and> \<not> (msg_loose \<in> set (evaluateWarnings toStr out)
         \<and> msg_exceeds \<in> set (evaluateWarnings toStr out))
   \<and> (0 \<le> stretchPct out \<and> stretchPct out \<le> 5 \<longrightarrow>
        msg_loose \<notin> set (evaluateWarnings toStr out)
        \<and> msg_exceeds \<notin> set (evaluateWarnings toStr out))"
proof -
  let ?w = "evaluateWarnings toStr out"
  have loose: "msg_loose \<in> set ?w \<longleftrightarrow> stretchPct out < 0"
    using msg_loose_neq_exceeds
    by (simp add: evaluateWarnings_def set_foldl_append msg_loose_not_temperature)
  have exceeds: "msg_exceeds \<in> set ?w \<longleftrightarrow> 5 < stretchPct out"
    using msg_loose_neq_exceeds not_neg_and_above [of "stretchPct out"]
    by (auto simp: evaluateWarnings_def set_foldl_append msg_exceeds_not_temperature)
  show ?thesis
    using loose exceeds not_neg_and_above [of "stretchPct out"]
      in_band_silent [of "stretchPct out"]
    by blast
qed

text \<open>The theorem at a result with stretch \<open>3\<close> and no temperature entries.\<close>

theorem evaluateWarnings_stretch_witness:
  "(0::jsnum) \<le> 3 \<and> (3::jsnum) \<le> 5
   \<and> msg_loose \<notin> set (evaluateWarnings (\<lambda>n. [])
        \<lparr>stretchPct = 3, glandVolume = 1, temperatureResults = []\<rparr>)
   \<and> msg_exceeds \<notin> set (evaluateWarnings (\<lambda>n. [])
        \<lparr>stretchPct = 3, glandVolume = 1, temperatureResults = []\<rparr>)"
  using evaluateWarnings_stretch
    [of "\<lambda>n. []" "\<lparr>stretchPct = 3, glandVolume = 1, temperatureResults = []\<rparr>"]
  by (simp add: jsnum_consts)

section \<open>The catalog parser\<close>

lemma indexOf_nonneg: "indexOf xs k \<noteq> - 1 \<Longrightarrow> 0 \<le> indexOf xs k"
  by (induction xs) (auto simp: Let_def split: if_splits)

lemma find_col_nonneg: "find_col header arr = Some j \<Longrightarrow> 0 \<le> j"
  by (auto simp: find_col_def find_Some_iff dest!: indexOf_nonneg [rotated])

lemma at_index_in_range:
  "0 \<le> k \<Longrightarrow> k < int (length cols) \<Longrightarrow> at_index cols (Some k) = Str (cols ! nat k)"
  by (simp add: at_index_def)

lemma parse_lines_found:
  assumes "0 \<le> d" "0 \<le> c" "0 \<le> i"
  shows "parse_lines (Some d) (Some c) (Some i) rows lines
         = rows @ map (row_of d c i) (filter (\<lambda>l. \<not> row_dropped d c i l) lines)"
proof (induction lines arbitrary: rows)
  case Nil
  then show ?case by simp
next
  case (Cons line lines)
  show ?case
  proof (cases "trim line = [] \<or> int (length (row_columns line)) \<le> max d (max c i)")
    case True
    then show ?thesis
      by (auto simp: Cons.IH row_dropped_def row_columns_def Let_def Math_max3_def
            length_le_def)
  next
    case False
    then have len: "d < int (length (row_columns line))" "c < int (length (row_columns line))"
      "i < int (length (row_columns line))"
      by auto
    have at: "at_index (row_columns line) (Some d) = Str (row_columns line ! nat d)"
      "at_index (row_columns line) (Some c) = Str (row_columns line ! nat c)"
      "at_index (row_columns line) (Some i) = Str (row_columns line ! nat i)"
      using assms len by (simp_all add: at_index_in_range)
    from False have nb: "trim line \<noteq> []"
      and nl: "\<not> length_le (row_columns line) (Math_max3 (Some d) (Some c) (Some i))"
      by (auto simp: Math_max3_def length_le_def)
    show ?thesis
      using False nb nl
      by (simp add: Cons.IH row_dropped_def row_of_def Let_def at
            row_columns_def [symmetric])
  qed
qed

lemma parse_lines_missing:
  assumes "iDash = None \<or> iCS = None \<or> iID = None"
  shows "parse_lines iDash iCS iID rows lines = rows"
  using assms
  by (induction lines arbitrary: rows) (auto simp: Let_def at_index_def)

lemma length_sort_insert: "length (sort_insert cmp x ys) = Suc (length ys)"
  by (induction ys) auto

lemma length_foldl_sort_insert:
  "length (foldl (\<lambda>acc x. sort_insert cmp x acc) acc xs) = length acc + length xs"
  by (induction xs arbitrary: acc) (auto simp: length_sort_insert)

lemma length_array_sort: "length (array_sort cmp xs) = length xs"
  by (simp add: array_sort_def length_foldl_sort_insert)

lemma parseAs568Csv_blank:
  "trim (strip_bom text) = [] \<Longrightarrow> parseAs568Csv cmp text = []"
  by (simp add: parseAs568Csv_def)

lemma parseAs568Csv_unfold:
  "trim (strip_bom text) \<noteq> [] \<Longrightarrow>
   parseAs568Csv cmp text
   = array_sort (\<lambda>a b. cmp (r_dash a) (r_dash b))
       (parse_lines (col_dash text) (col_cs text) (col_id text) [] (data_lines text))"
  by (simp add: parseAs568Csv_def Let_def col_dash_def col_cs_def col_id_def csv_header_def
        csv_lines_def data_lines_def)

lemma parseAs568Csv_missing_column:
  assumes "col_dash text = None \<or> col_cs text = None \<or> col_id text = None"
  shows "parseAs568Csv cmp text = []"
proof (cases "trim (strip_bom text) = []")
  case True
  then show ?thesis by (rule parseAs568Csv_blank)
next
  case False
  then show ?thesis
    using assms by (simp add: parseAs568Csv_unfold parse_lines_missing array_sort_def)
qed

lemma parseAs568Csv_found:
  assumes "trim (strip_bom text) \<noteq> []"
    and "col_dash text = Some d" "col_cs text = Some c" "col_id text = Some i"
  shows "parseAs568Csv cmp text
         = array_sort (\<lambda>a b. cmp (r_dash a) (r_dash b))
             (map (row_of d c i) (filter (\<lambda>l. \<not> row_dropped d c i l) (data_lines text)))"
proof -
  have "0 \<le> d" "0 \<le> c" "0 \<le> i"
    using assms(2-4) by (auto simp: col_dash_def col_cs_def col_id_def dest: find_col_nonneg)
  then show ?thesis
    using assms by (simp add: parseAs568Csv_unfold parse_lines_found)
qed

subsection \<open>The example table\<close>

lemmas ws_simps = trim_def isWhiteSpace_def js_def

lemma example_trim: "trim (strip_bom example_table) = example_table"
  by (simp add: example_table_def strip_bom_def ws_simps)

lemma example_lines:
  "csv_lines example_table = [js ''Dash,CS,ID'', js ''004,1.02,1.78'', js ''1x3,abc,2.0'']"
  unfolding csv_lines_def example_trim by (simp add: example_table_def js_def)

lemma example_header: "csv_header example_table = [js ''dash'', js ''cs'', js ''id'']"
  unfolding csv_header_def example_lines
  by (simp add: ws_simps toLowerCase_def)

lemma example_cols:
  "col_dash example_table = Some 0" "col_cs example_table = Some 1"
  "col_id example_table = Some 2"
  unfolding col_dash_def col_cs_def col_id_def example_header
  by (simp_all add: find_col_def js_def)

lemma example_data:
  "data_lines example_table = [js ''004,1.02,1.78'', js ''1x3,abc,2.0'']"
  unfolding data_lines_def example_lines by simp

lemmas number_simps = StringToNumber_def nonDecimal_def unsignedDecimal_def isDigit_def
  exponentPart_def digitsValue_def decDigit_def RoundMV_def

lemma example_row1_columns:
  "row_columns (js ''004,1.02,1.78'') = [js ''004'', js ''1.02'', js ''1.78'']"
  by (simp add: row_columns_def ws_simps)

lemma example_row2_columns:
  "row_columns (js ''1x3,abc,2.0'') = [js ''1x3'', js ''abc'', js ''2.0'']"
  by (simp add: row_columns_def ws_simps)

lemma example_numbers:
  "StringToNumber (js ''1.02'') = Fin 1.02" "StringToNumber (js ''1.78'') = Fin 1.78"
  "StringToNumber (js ''abc'') = NaN"
  by (simp_all add: number_simps ws_simps)

lemma example_row1: "\<not> row_dropped 0 1 2 (js ''004,1.02,1.78'')"
  unfolding row_dropped_def example_row1_columns
  by (simp add: example_numbers) (simp add: ws_simps)

lemma example_row2: "row_dropped 0 1 2 (js ''1x3,abc,2.0'')"
  unfolding row_dropped_def example_row2_columns
  by (simp add: example_numbers)

lemma example_row1_of:
  "row_of 0 1 2 (js ''004,1.02,1.78'') = \<lparr>r_dash = js ''004'', r_cs = Fin 1.02, r_id = Fin 1.78\<rparr>"
  unfolding row_of_def example_row1_columns by (simp add: example_numbers)

lemma example_parse:
  "parseAs568Csv cmp example_table = [\<lparr>r_dash = js ''004'', r_cs = Fin 1.02, r_id = Fin 1.78\<rparr>]"
proof -
  have "trim (strip_bom example_table) \<noteq> []"
    unfolding example_trim by (simp add: example_table_def js_def)
  then show ?thesis
    by (simp add: parseAs568Csv_found [OF _ example_cols] example_data example_row1
          example_row2 example_row1_of array_sort_def)
qed

text \<open>
  Claim C8: the parser is total (no row raises an error) and returns, sorted, exactly the
  rows of the data lines that are not dropped: a row is dropped when it is blank, has no
  column at the highest required index, has an empty dash identifier, or has a
  cross-section or internal diameter that \<^verbatim>\<open>Number\<close> does not parse as a finite number.
  A blank table and a header that lacks one of the three columns give no rows at all. The
  example table yields exactly the row with dash \<^verbatim>\<open>004\<close>.
\<close>

theorem parseAs568Csv_rows:
  "(trim (strip_bom text) = [] \<longrightarrow> parseAs568Csv cmp text = [])
   \<and> (col_dash text = None \<or> col_cs text = None \<or> col_id text = None \<longrightarrow>
        parseAs568Csv cmp text = [])
   \<and> (trim (strip_bom text) \<noteq> [] \<and> col_dash text = Some d \<and> col_cs text = Some c
        \<and> col_id text = Some i \<longrightarrow>
        parseAs568Csv cmp text
          = array_sort (\<lambda>a b. cmp (r_dash a) (r_dash b))
              (map (row_of d c i) (filter (\<lambda>l. \<not> row_dropped d c i l) (data_lines text)))
        \<and> length (parseAs568Csv cmp text)
          = length (filter (\<lambda>l. \<not> row_dropped d c i l) (data_lines text)))
   \<and> parseAs568Csv cmp example_table
        = [\<lparr>r_dash = js ''004'', r_cs = Fin 1.02, r_id = Fin 1.78\<rparr>]"
proof (intro conjI impI)
  assume "trim (strip_bom text) = []"
  then show "parseAs568Csv cmp text = []" by (rule parseAs568Csv_blank)
next
  assume "col_dash text = None \<or> col_cs text = None \<or> col_id text = None"
  then show "parseAs568Csv cmp text = []" by (rule parseAs568Csv_missing_column)
next
  assume h: "trim (strip_bom text) \<noteq> [] \<and> col_dash text = Some d \<and> col_cs text = Some c
        \<and> col_id text = Some i"
  then show e: "parseAs568Csv cmp text
          = array_sort (\<lambda>a b. cmp (r_dash a) (r_dash b))
              (map (row_of d c i) (filter (\<lambda>l. \<not> row_dropped d c i l) (data_lines text)))"
    by (intro parseAs568Csv_found) auto
  show "length (parseAs568Csv cmp text)
          = length (filter (\<lambda>l. \<not> row_dropped d c i l) (data_lines text))"
    unfolding e by (simp add: length_array_sort)
next
  show "parseAs568Csv cmp example_table
        = [\<lparr>r_dash = js ''004'', r_cs = Fin 1.02, r_id = Fin 1.78\<rparr>]"
    by (rule example_parse)
qed

text \<open>
  The theorem at the empty table, at a table whose header has no dash column, and at the
  example table, whose second row is dropped and whose first is kept.
\<close>

theorem parseAs568Csv_rows_witness:
  "parseAs568Csv (\<lambda>a b. 0) [] = []
   \<and> parseAs568Csv (\<lambda>a b. 0) (js ''CS,ID\<newline>1.02,1.78'') = []
   \<and> row_dropped 0 1 2 (js ''1x3,abc,2.0'') \<and> \<not> row_dropped 0 1 2 (js ''004,1.02,1.78'')
   \<and> parseAs568Csv (\<lambda>a b. 0) example_table
        = array_sort (\<lambda>a b. 0)
            (map (row_of 0 1 2) (filter (\<lambda>l. \<not> row_dropped 0 1 2 l) (data_lines example_table)))
   \<and> length (parseAs568Csv (\<lambda>a b. 0) example_table) = 1"
proof -
  have blank: "trim (strip_bom []) = []"
    by (simp add: strip_bom_def trim_def)
  have "csv_header (js ''CS,ID\<newline>1.02,1.78'') = [js ''cs'', js ''id'']"
    by (simp add: csv_header_def csv_lines_def strip_bom_def ws_simps toLowerCase_def)
  then have missing: "col_dash (js ''CS,ID\<newline>1.02,1.78'') = None"
    by (simp add: col_dash_def find_col_def js_def)
  have found: "trim (strip_bom example_table) \<noteq> [] \<and> col_dash example_table = Some 0
      \<and> col_cs example_table = Some 1 \<and> col_id example_table = Some 2"
    unfolding example_trim by (simp add: example_cols) (simp add: example_table_def js_def)
  show ?thesis
    using parseAs568Csv_rows [of "[]" "\<lambda>a b. 0"] blank
      parseAs568Csv_rows [of "js ''CS,ID\<newline>1.02,1.78''" "\<lambda>a b. 0"] missing
      parseAs568Csv_rows [of example_table "\<lambda>a b. 0" 0 1 2] found
      example_row1 example_row2
    by (simp add: example_data length_array_sort)
qed

section \<open>Rounding to the nearest double\<close>

lemma pow2_powr: "pow2 k = 2 powr (of_int k)"
  by (simp add: pow2_def powr_int)

lemma pow2_pos: "0 < pow2 k"
  by (simp add: pow2_powr)

lemma pow2_add: "pow2 (j + k) = pow2 j * pow2 k"
  by (simp add: pow2_powr powr_add)

lemma pow2_mono: "j \<le> k \<Longrightarrow> pow2 j \<le> pow2 k"
  by (simp add: pow2_powr)

lemma exponent_eq:
  assumes "pow2 e \<le> m" "m < pow2 (e + 1)"
  shows "\<lfloor>log 2 m\<rfloor> = e"
proof -
  have "0 < m" using assms(1) pow2_pos [of e] by linarith
  then show ?thesis
    using assms by (simp add: floor_log_eq_powr_iff pow2_powr)
qed

lemma exponent_bounds:
  assumes "0 < m"
  shows "pow2 \<lfloor>log 2 m\<rfloor> \<le> m" "m < pow2 (\<lfloor>log 2 m\<rfloor> + 1)"
  using assms floor_log_eq_powr_iff [of m 2 "\<lfloor>log 2 m\<rfloor>"] by (simp_all add: pow2_powr)

lemma ulp_pos: "0 < ulp m"
  by (simp add: ulp_def pow2_pos)

lemma rne_cases: "rne y = \<lfloor>y\<rfloor> \<or> rne y = \<lfloor>y\<rfloor> + 1"
  by (simp add: rne_def Let_def)

lemma rne_error: "\<bar>of_int (rne y) - y\<bar> \<le> 1 / 2"
proof -
  have "of_int \<lfloor>y\<rfloor> \<le> y" "y < of_int \<lfloor>y\<rfloor> + 1" by linarith+
  then show ?thesis
    by (auto simp: rne_def Let_def abs_le_iff)
qed

lemma rne_of_int [simp]: "rne (of_int n) = n"
  by (simp add: rne_def)

lemma rne_le_of_int: "y \<le> of_int n \<Longrightarrow> rne y \<le> n"
proof -
  assume h: "y \<le> of_int n"
  show ?thesis
  proof (cases "y = of_int n")
    case True
    then show ?thesis by simp
  next
    case False
    then have "y < of_int n" using h by simp
    then have "\<lfloor>y\<rfloor> < n" by (simp add: floor_less_iff)
    then show ?thesis using rne_cases [of y] by auto
  qed
qed

lemma rne_nonneg: "0 \<le> y \<Longrightarrow> 0 \<le> rne y"
  using rne_cases [of y] by (auto simp: zero_le_floor)

lemma rnd_nonneg: "0 \<le> m \<Longrightarrow> 0 \<le> rnd m"
  using ulp_pos [of m] by (simp add: rnd_def rne_nonneg)

lemma rnd_error_ulp: "\<bar>rnd m - m\<bar> \<le> ulp m / 2"
proof (cases "m = 0")
  case True
  then show ?thesis using ulp_pos [of m] by (simp add: rnd_def)
next
  case False
  have u: "0 < ulp m" by (rule ulp_pos)
  have "rnd m - m = ulp m * (of_int (rne (m / ulp m)) - m / ulp m)"
    using False u by (simp add: rnd_def algebra_simps)
  then have "\<bar>rnd m - m\<bar> = ulp m * \<bar>of_int (rne (m / ulp m)) - m / ulp m\<bar>"
    using u by (simp add: abs_mult)
  also have "\<dots> \<le> ulp m * (1 / 2)"
    using u rne_error [of "m / ulp m"] by (intro mult_left_mono) auto
  finally show ?thesis by simp
qed

lemma half_ulp_bound:
  assumes "0 < m"
  shows "ulp m / 2 \<le> m / 2 ^ 53 + 1 / 2 ^ 1075"
proof (cases "- 1022 \<le> \<lfloor>log 2 m\<rfloor>")
  case True
  then have "max \<lfloor>log 2 m\<rfloor> (- 1022) - 52 = \<lfloor>log 2 m\<rfloor> + (- 52)" by linarith
  then have "ulp m = pow2 (\<lfloor>log 2 m\<rfloor> + (- 52))" by (simp only: ulp_def)
  also have "\<dots> = pow2 \<lfloor>log 2 m\<rfloor> * pow2 (- 52)" by (rule pow2_add)
  also have "\<dots> \<le> m * pow2 (- 52)"
    using exponent_bounds(1) [OF assms] pow2_pos [of "- 52"] by (intro mult_right_mono) auto
  finally have "ulp m \<le> m / 2 ^ 52" by (simp add: pow2_def)
  then show ?thesis by simp
next
  case False
  then have "max \<lfloor>log 2 m\<rfloor> (- 1022) - 52 = - 1074" by linarith
  then have "ulp m = pow2 (- 1074)" by (simp only: ulp_def)
  then have "ulp m / 2 = 1 / 2 ^ 1075" by (simp add: pow2_def)
  then show ?thesis using assms by simp
qed

lemma rnd_error: "0 \<le> m \<Longrightarrow> \<bar>rnd m - m\<bar> \<le> m / 2 ^ 53 + 1 / 2 ^ 1075"
proof (cases "m = 0")
  case True
  then show ?thesis by (simp add: rnd_def)
next
  case False
  assume "0 \<le> m"
  then have "0 < m" using False by simp
  then show ?thesis
    using rnd_error_ulp [of m] half_ulp_bound [of m] by linarith
qed

lemma pow2_less: "j < k \<Longrightarrow> pow2 j < pow2 k"
  by (simp add: pow2_powr)

lemma pow2_le_iff: "pow2 j \<le> pow2 k \<longleftrightarrow> j \<le> k"
  by (simp add: pow2_powr)

lemma pow2_nat: "0 \<le> k \<Longrightarrow> pow2 k = of_int (2 ^ nat k)"
  by (simp add: pow2_def)

lemma pow2_diff: "pow2 k / pow2 j = pow2 (k - j)"
  by (simp add: pow2_powr powr_diff)

lemma rnd_le_pow2:
  assumes "0 \<le> m" "m \<le> pow2 k" "- 1074 \<le> k"
  shows "rnd m \<le> pow2 k"
proof (cases "m = 0")
  case True
  then show ?thesis using pow2_pos [of k] by (simp add: rnd_def)
next
  case False
  then have m: "0 < m" using assms(1) by simp
  define e where "e = \<lfloor>log 2 m\<rfloor>"
  define j where "j = max e (- 1022) - 52"
  have "pow2 e \<le> m" unfolding e_def by (rule exponent_bounds(1) [OF m])
  then have "pow2 e \<le> pow2 k" using assms(2) by linarith
  then have ek: "e \<le> k" by (simp add: pow2_le_iff)
  have jk: "0 \<le> k - j" unfolding j_def using ek assms(3) by linarith
  have u: "ulp m = pow2 j" by (simp add: ulp_def e_def j_def)
  have "m / pow2 j \<le> pow2 k / pow2 j"
    using assms(2) pow2_pos [of j] by (simp add: divide_right_mono)
  also have "\<dots> = of_int (2 ^ nat (k - j))"
    using jk by (simp add: pow2_diff pow2_nat)
  finally have "rne (m / pow2 j) \<le> 2 ^ nat (k - j)" by (rule rne_le_of_int)
  then have "of_int (rne (m / pow2 j)) \<le> (of_int (2 ^ nat (k - j)) :: real)"
    by (simp only: of_int_le_iff)
  then have "pow2 j * of_int (rne (m / pow2 j)) \<le> pow2 j * of_int (2 ^ nat (k - j))"
    using pow2_pos [of j] by (intro mult_left_mono) auto
  also have "\<dots> = pow2 j * pow2 (k - j)" using jk by (simp add: pow2_nat)
  also have "\<dots> = pow2 k" by (simp add: pow2_add [symmetric])
  finally show ?thesis using False by (simp add: rnd_def u)
qed

lemma rnd_exact:
  assumes "pow2 e \<le> m" "m < pow2 (e + 1)" "m = of_int n * pow2 (max e (- 1022) - 52)"
  shows "rnd m = m"
proof -
  define j where "j = max e (- 1022) - 52"
  have m: "0 < m" using assms(1) pow2_pos [of e] by linarith
  have u: "ulp m = pow2 j"
    using exponent_eq [OF assms(1,2)] by (simp add: ulp_def j_def)
  have mj: "m = of_int n * pow2 j" using assms(3) by (simp only: j_def)
  have "m / pow2 j = of_int n"
    by (subst mj) (use pow2_pos [of j] in simp)
  then have "rnd m = pow2 j * of_int n"
    using m by (simp add: rnd_def u)
  then show ?thesis using mj by simp
qed

lemma rnd_one: "rnd 1 = 1"
  by (rule rnd_exact [where e = 0 and n = "2 ^ 52"]) (simp_all add: pow2_def)

lemma rnd_near_one:
  assumes "1 - 1 / 2 ^ 54 < z" "z \<le> 1"
  shows "rnd z = 1"
proof (cases "z = 1")
  case True
  then show ?thesis by (simp add: rnd_one)
next
  case False
  then have z1: "z < 1" using assms(2) by simp
  have "pow2 (- 1) \<le> z" using assms(1) by (simp add: pow2_def)
  moreover have "z < pow2 (- 1 + 1)" using z1 by (simp add: pow2_def)
  ultimately have "\<lfloor>log 2 z\<rfloor> = - 1" by (rule exponent_eq)
  then have u: "ulp z = 1 / 2 ^ 53" by (simp add: ulp_def pow2_def)
  define y where "y = z / (1 / 2 ^ 53)"
  define N :: int where "N = 2 ^ 53"
  have lo: "of_int N - 1 / 2 < y" using assms(1) by (simp add: y_def N_def field_simps)
  have hi: "y < of_int N" using z1 by (simp add: y_def N_def)
  have fl: "\<lfloor>y\<rfloor> = N - 1"
    using lo hi by (intro floor_unique) auto
  have "rne y = N"
    using lo by (simp add: rne_def Let_def fl)
  then have "rnd z = 1 / 2 ^ 53 * of_int N"
    using assms(1) by (simp add: rnd_def u y_def)
  then show ?thesis by (simp add: N_def)
qed

lemma isFinite_make [simp]: "isFinite_d (make neg m)"
  by (simp add: make_def signed_zero_def)

lemma val_make [simp]: "val_d (make neg m) = (if neg then - m else m)"
  by (simp add: make_def signed_zero_def)

lemma isFinite_signed_zero [simp]: "isFinite_d (signed_zero neg)"
  by (simp add: signed_zero_def)

lemma val_signed_zero [simp]: "val_d (signed_zero neg) = 0"
  by (simp add: signed_zero_def)

lemma not_isFinite_infinity [simp]: "\<not> isFinite_d (infinity neg)"
  by (simp add: infinity_def)

lemma infinity_not_NaN [simp]: "infinity neg \<noteq> NotANumber"
  by (simp add: infinity_def)

lemma make_not_NaN [simp]: "make neg m \<noteq> NotANumber"
  by (simp add: make_def signed_zero_def)

lemma signed_zero_not_NaN [simp]: "signed_zero neg \<noteq> NotANumber"
  by (simp add: signed_zero_def)

lemma isFinite_not_NaN: "isFinite_d a \<Longrightarrow> a \<noteq> NotANumber"
  by (cases a) simp_all

lemma round_to_finite: "m < threshold \<Longrightarrow> round_to neg m = make neg (rnd m)"
  by (simp add: round_to_def)

lemma round_to_overflow: "threshold \<le> m \<Longrightarrow> round_to neg m = infinity neg"
  by (simp add: round_to_def)

lemma round_to_zero [simp]: "round_to neg 0 = signed_zero neg"
  by (simp add: round_to_def threshold_def make_def rnd_def)

lemma negative_make: "0 \<le> m \<Longrightarrow> negative (make neg m) = neg"
  by (simp add: make_def signed_zero_def)

lemma negative_round_to: "0 \<le> m \<Longrightarrow> negative (round_to neg m) = neg"
  using rnd_nonneg [of m] by (simp add: round_to_def infinity_def negative_make)

lemma isFinite_fneg [simp]: "isFinite_d (fneg a) = isFinite_d a"
  by (cases a) simp_all

lemma val_fneg [simp]: "val_d (fneg a) = - val_d a"
  by (cases a) simp_all

lemma fneg_NaN_iff [simp]: "fneg a = NotANumber \<longleftrightarrow> a = NotANumber"
  by (cases a) simp_all

lemma negative_fneg: "a \<noteq> NotANumber \<Longrightarrow> negative (fneg a) = (\<not> negative a)"
  by (cases a) auto

lemma fneg_signed_zero: "fneg (signed_zero s) = signed_zero (\<not> s)"
  by (simp add: signed_zero_def)

lemma fneg_infinity: "fneg (infinity s) = infinity (\<not> s)"
  by (simp add: infinity_def)

lemma fneg_make: "fneg (make s m) = make (\<not> s) m"
  by (simp add: make_def signed_zero_def)

lemma fneg_round_to: "fneg (round_to s m) = round_to (\<not> s) m"
  by (simp add: round_to_def fneg_infinity fneg_make)

lemma fmul_fneg: "fmul (fneg a) b = fneg (fmul a b)"
proof (cases "a = NotANumber \<or> b = NotANumber")
  case True
  then show ?thesis by (auto simp add: fmul_def)
next
  case False
  then have n: "negative (fneg a) = (\<not> negative a)" by (simp add: negative_fneg)
  show ?thesis
    using False by (auto simp add: fmul_def n fneg_round_to fneg_infinity)
qed

lemma fdiv_fneg: "fdiv (fneg a) b = fneg (fdiv a b)"
proof (cases "a = NotANumber \<or> b = NotANumber")
  case True
  then show ?thesis by (auto simp add: fdiv_def)
next
  case False
  then have n: "negative (fneg a) = (\<not> negative a)" by (simp add: negative_fneg)
  show ?thesis
    using False
    by (auto simp add: fdiv_def n fneg_round_to fneg_infinity fneg_signed_zero)
qed

lemma cos_d_fneg: "cos_d (fneg a) = cos_d a"
  by (simp add: cos_d_def)

lemma circularSegmentArea_d_fneg:
  "circularSegmentArea_d r (fneg a) = circularSegmentArea_d r a"
  by (simp add: circularSegmentArea_d_def fmul_fneg fdiv_fneg cos_d_fneg)

lemma round_to_val:
  assumes "0 \<le> m" "m < threshold"
  shows "isFinite_d (round_to s m)"
    and "val_d (round_to s m) = (if s then - rnd m else rnd m)"
    and "\<bar>val_d (round_to s m) - (if s then - m else m)\<bar> \<le> m / 2 ^ 53 + 1 / 2 ^ 1075"
proof -
  show "isFinite_d (round_to s m)" using assms(2) by (simp add: round_to_finite)
  show v: "val_d (round_to s m) = (if s then - rnd m else rnd m)"
    using assms(2) by (simp add: round_to_finite)
  show "\<bar>val_d (round_to s m) - (if s then - m else m)\<bar> \<le> m / 2 ^ 53 + 1 / 2 ^ 1075"
    using rnd_error [OF assms(1)] by (simp add: v abs_minus_commute)
qed

lemma negative_val: "isFinite_d a \<Longrightarrow> val_d a \<noteq> 0 \<Longrightarrow> negative a = (val_d a < 0)"
  by (cases a) simp_all

lemma fmul_finite:
  assumes "isFinite_d a" "isFinite_d b" "\<bar>val_d a * val_d b\<bar> < threshold"
  shows "isFinite_d (fmul a b)"
    and "\<bar>val_d (fmul a b) - val_d a * val_d b\<bar> \<le> \<bar>val_d a * val_d b\<bar> / 2 ^ 53 + 1 / 2 ^ 1075"
proof -
  define m where "m = \<bar>val_d a\<bar> * \<bar>val_d b\<bar>"
  define s where "s = (negative a \<noteq> negative b)"
  have m: "0 \<le> m" "m < threshold" "m = \<bar>val_d a * val_d b\<bar>"
    using assms(3) by (simp_all add: m_def abs_mult)
  have f: "fmul a b = round_to s m"
    using assms(1,2) by (auto simp add: fmul_def m_def s_def isFinite_not_NaN)
  show "isFinite_d (fmul a b)" unfolding f by (rule round_to_val(1) [OF m(1,2)])
  show "\<bar>val_d (fmul a b) - val_d a * val_d b\<bar> \<le> \<bar>val_d a * val_d b\<bar> / 2 ^ 53 + 1 / 2 ^ 1075"
  proof (cases "val_d a * val_d b = 0")
    case True
    then have "m = 0" using m(3) by simp
    then have "val_d (fmul a b) = 0" by (simp add: f)
    then show ?thesis unfolding True by simp
  next
    case False
    then have nz: "val_d a \<noteq> 0" "val_d b \<noteq> 0" by auto
    have s: "s = ((val_d a < 0) \<noteq> (val_d b < 0))"
      by (simp add: s_def negative_val [OF assms(1) nz(1)] negative_val [OF assms(2) nz(2)])
    have "(if s then - m else m) = val_d a * val_d b"
      unfolding s m_def using nz
      by (cases "val_d a < 0"; cases "val_d b < 0") (simp_all add: abs_if)
    then show ?thesis
      using round_to_val(3) [OF m(1,2), of s] by (simp only: f m(3))
  qed
qed

lemma fmul_overflow:
  assumes "isFinite_d a" "isFinite_d b" "threshold \<le> \<bar>val_d a * val_d b\<bar>"
  shows "fmul a b = infinity (negative a \<noteq> negative b)"
  using assms by (auto simp add: fmul_def isFinite_not_NaN abs_mult round_to_overflow)

lemma fdiv_finite:
  assumes "isFinite_d a" "isFinite_d b" "val_d b \<noteq> 0" "\<bar>val_d a / val_d b\<bar> < threshold"
  shows "isFinite_d (fdiv a b)"
    and "\<bar>val_d (fdiv a b) - val_d a / val_d b\<bar> \<le> \<bar>val_d a / val_d b\<bar> / 2 ^ 53 + 1 / 2 ^ 1075"
proof -
  define m where "m = \<bar>val_d a\<bar> / \<bar>val_d b\<bar>"
  define s where "s = (negative a \<noteq> negative b)"
  have m: "0 \<le> m" "m < threshold" "m = \<bar>val_d a / val_d b\<bar>"
    using assms(4) by (simp_all add: m_def)
  have f: "fdiv a b = round_to s m"
    using assms(1,2,3) by (auto simp add: fdiv_def m_def s_def isFinite_not_NaN)
  show "isFinite_d (fdiv a b)" unfolding f by (rule round_to_val(1) [OF m(1,2)])
  show "\<bar>val_d (fdiv a b) - val_d a / val_d b\<bar> \<le> \<bar>val_d a / val_d b\<bar> / 2 ^ 53 + 1 / 2 ^ 1075"
  proof (cases "val_d a = 0")
    case True
    then have "m = 0" by (simp add: m_def)
    then have "val_d (fdiv a b) = 0" by (simp add: f)
    then show ?thesis unfolding True by simp
  next
    case False
    have s: "s = ((val_d a < 0) \<noteq> (val_d b < 0))"
      by (simp add: s_def negative_val [OF assms(1) False] negative_val [OF assms(2,3)])
    have "(if s then - m else m) = val_d a / val_d b"
      unfolding s m_def using False assms(3)
      by (cases "val_d a < 0"; cases "val_d b < 0") (simp_all add: abs_if)
    then show ?thesis
      using round_to_val(3) [OF m(1,2), of s] by (simp only: f m(3))
  qed
qed

lemma fdiv_overflow:
  assumes "isFinite_d a" "isFinite_d b" "val_d b \<noteq> 0" "threshold \<le> \<bar>val_d a / val_d b\<bar>"
  shows "fdiv a b = infinity (negative a \<noteq> negative b)"
  using assms by (auto simp add: fdiv_def isFinite_not_NaN round_to_overflow)

lemma fadd_finite:
  assumes "isFinite_d a" "isFinite_d b" "\<bar>val_d a + val_d b\<bar> < threshold"
  shows "isFinite_d (fadd a b)"
    and "\<bar>val_d (fadd a b) - (val_d a + val_d b)\<bar> \<le> \<bar>val_d a + val_d b\<bar> / 2 ^ 53 + 1 / 2 ^ 1075"
proof -
  define x where "x = val_d a + val_d b"
  have f: "fadd a b = (if x = 0 then signed_zero (negative a \<and> negative b) else round_to (x < 0) \<bar>x\<bar>)"
    using assms(1,2) by (auto simp add: fadd_def x_def Let_def isFinite_not_NaN)
  have m: "0 \<le> \<bar>x\<bar>" "\<bar>x\<bar> < threshold" using assms(3) by (simp_all add: x_def)
  show "isFinite_d (fadd a b)"
    using round_to_val(1) [OF m] by (simp add: f)
  have "(if x < 0 then - \<bar>x\<bar> else \<bar>x\<bar>) = x" by simp
  then have "\<bar>val_d (fadd a b) - x\<bar> \<le> \<bar>x\<bar> / 2 ^ 53 + 1 / 2 ^ 1075"
    using round_to_val(3) [OF m, of "x < 0"] by (simp add: f)
  then show "\<bar>val_d (fadd a b) - (val_d a + val_d b)\<bar> \<le> \<bar>val_d a + val_d b\<bar> / 2 ^ 53 + 1 / 2 ^ 1075"
    by (simp only: x_def)
qed

lemma fadd_overflow:
  assumes "isFinite_d a" "isFinite_d b" "threshold \<le> \<bar>val_d a + val_d b\<bar>"
  shows "fadd a b = infinity (val_d a + val_d b < 0)"
proof -
  have "val_d a + val_d b \<noteq> 0" using assms(3) by (auto simp add: threshold_def)
  then show ?thesis
    using assms by (auto simp add: fadd_def Let_def isFinite_not_NaN round_to_overflow)
qed

lemma fsub_finite:
  assumes "isFinite_d a" "isFinite_d b" "\<bar>val_d a - val_d b\<bar> < threshold"
  shows "isFinite_d (fsub a b)"
    and "\<bar>val_d (fsub a b) - (val_d a - val_d b)\<bar> \<le> \<bar>val_d a - val_d b\<bar> / 2 ^ 53 + 1 / 2 ^ 1075"
  using fadd_finite [of a "fneg b"] assms by (simp_all add: fsub_def)

section \<open>The circular segment on doubles\<close>

lemma pow2_less_threshold: "k \<le> 1023 \<Longrightarrow> pow2 k < threshold"
proof -
  assume "k \<le> 1023"
  then have "pow2 k \<le> pow2 1023" by (simp add: pow2_le_iff)
  also have "\<dots> < threshold" by (simp add: pow2_def threshold_def)
  finally show ?thesis .
qed

lemma round_to_le_pow2:
  assumes "0 \<le> m" "m \<le> pow2 k" "- 1074 \<le> k" "k \<le> 1023"
  shows "isFinite_d (round_to s m)" and "\<bar>val_d (round_to s m)\<bar> \<le> pow2 k"
proof -
  have t: "m < threshold" using assms(2) pow2_less_threshold [OF assms(4)] by linarith
  show "isFinite_d (round_to s m)" by (rule round_to_val(1) [OF assms(1) t])
  have "\<bar>val_d (round_to s m)\<bar> = rnd m"
    using rnd_nonneg [OF assms(1)] by (simp add: round_to_val(2) [OF assms(1) t])
  then show "\<bar>val_d (round_to s m)\<bar> \<le> pow2 k"
    using rnd_le_pow2 [OF assms(1,2,3)] by simp
qed

lemma fmul_le_pow2:
  assumes "isFinite_d a" "isFinite_d b" "\<bar>val_d a * val_d b\<bar> \<le> pow2 k" "- 1074 \<le> k" "k \<le> 1023"
  shows "isFinite_d (fmul a b)" and "\<bar>val_d (fmul a b)\<bar> \<le> pow2 k"
proof -
  have f: "fmul a b = round_to (negative a \<noteq> negative b) \<bar>val_d a * val_d b\<bar>"
    using assms(1,2) by (auto simp add: fmul_def isFinite_not_NaN abs_mult)
  show "isFinite_d (fmul a b)" unfolding f
    by (rule round_to_le_pow2(1) [OF _ assms(3,4,5)]) simp
  show "\<bar>val_d (fmul a b)\<bar> \<le> pow2 k" unfolding f
    by (rule round_to_le_pow2(2) [OF _ assms(3,4,5)]) simp
qed

lemma fdiv_le_pow2:
  assumes "isFinite_d a" "isFinite_d b" "val_d b \<noteq> 0"
    "\<bar>val_d a / val_d b\<bar> \<le> pow2 k" "- 1074 \<le> k" "k \<le> 1023"
  shows "isFinite_d (fdiv a b)" and "\<bar>val_d (fdiv a b)\<bar> \<le> pow2 k"
proof -
  have f: "fdiv a b = round_to (negative a \<noteq> negative b) \<bar>val_d a / val_d b\<bar>"
    using assms(1,2,3) by (auto simp add: fdiv_def isFinite_not_NaN)
  show "isFinite_d (fdiv a b)" unfolding f
    by (rule round_to_le_pow2(1) [OF _ assms(4,5,6)]) simp
  show "\<bar>val_d (fdiv a b)\<bar> \<le> pow2 k" unfolding f
    by (rule round_to_le_pow2(2) [OF _ assms(4,5,6)]) simp
qed

lemma pow2_numeral: "pow2 1 = 2" "pow2 2 = 4" "pow2 7 = 128"
  by (simp_all add: pow2_def)

lemma half_angle_bound:
  assumes "isFinite_d a" "\<bar>val_d a\<bar> \<le> pow2 k" "- 1060 \<le> k" "k \<le> 1021"
  shows "isFinite_d (fdiv (fdiv (fmul a PI_d) (Finite 180)) (Finite 2))"
    and "\<bar>val_d (fdiv (fdiv (fmul a PI_d) (Finite 180)) (Finite 2))\<bar> \<le> pow2 (k - 6)"
proof -
  have p: "isFinite_d PI_d" "0 \<le> val_d PI_d" "val_d PI_d \<le> 4" by (simp_all add: PI_d_def)
  have "\<bar>val_d a * val_d PI_d\<bar> \<le> pow2 k * 4"
    unfolding abs_mult using assms(2) p(2,3) by (intro mult_mono) auto
  also have "\<dots> = pow2 (k + 2)" by (simp add: pow2_add pow2_numeral)
  finally have 1: "\<bar>val_d a * val_d PI_d\<bar> \<le> pow2 (k + 2)" .
  have t1: "isFinite_d (fmul a PI_d)" "\<bar>val_d (fmul a PI_d)\<bar> \<le> pow2 (k + 2)"
    using fmul_le_pow2 [OF assms(1) p(1) 1] assms(3,4) by simp_all
  have "\<bar>val_d (fmul a PI_d) / val_d (Finite 180)\<bar> \<le> pow2 (k + 2) / 128"
    using t1(2) pow2_pos [of "k + 2"] by (simp add: field_simps)
  also have "\<dots> = pow2 (k - 5)"
  proof -
    have "k + 2 = (k - 5) + 7" by simp
    then have "pow2 (k + 2) = pow2 (k - 5) * 128"
      by (simp only: pow2_add pow2_numeral)
    then show ?thesis by simp
  qed
  finally have 2: "\<bar>val_d (fmul a PI_d) / val_d (Finite 180)\<bar> \<le> pow2 (k - 5)" .
  have t2: "isFinite_d (fdiv (fmul a PI_d) (Finite 180))"
    "\<bar>val_d (fdiv (fmul a PI_d) (Finite 180))\<bar> \<le> pow2 (k - 5)"
    using fdiv_le_pow2 [OF t1(1) _ _ 2] assms(3,4) by simp_all
  have "\<bar>val_d (fdiv (fmul a PI_d) (Finite 180)) / val_d (Finite 2)\<bar> \<le> pow2 (k - 5) / 2"
    using t2(2) by simp
  also have "\<dots> = pow2 (k - 6)"
  proof -
    have "k - 5 = (k - 6) + 1" by simp
    then have "pow2 (k - 5) = pow2 (k - 6) * 2"
      by (simp only: pow2_add pow2_numeral)
    then show ?thesis by simp
  qed
  finally have 3: "\<bar>val_d (fdiv (fmul a PI_d) (Finite 180)) / val_d (Finite 2)\<bar> \<le> pow2 (k - 6)" .
  show "isFinite_d (fdiv (fdiv (fmul a PI_d) (Finite 180)) (Finite 2))"
    using fdiv_le_pow2(1) [OF t2(1) _ _ 3] assms(3,4) by simp
  show "\<bar>val_d (fdiv (fdiv (fmul a PI_d) (Finite 180)) (Finite 2))\<bar> \<le> pow2 (k - 6)"
    using fdiv_le_pow2(2) [OF t2(1) _ _ 3] assms(3,4) by simp
qed


lemma cos_lower: "1 - x\<^sup>2 / 2 \<le> cos (x::real)"
proof -
  have "\<bar>sin (x / 2)\<bar> \<le> \<bar>x / 2\<bar>" by (rule abs_sin_x_le_abs_x)
  then have "\<bar>sin (x / 2)\<bar>\<^sup>2 \<le> \<bar>x / 2\<bar>\<^sup>2" by (intro power_mono) auto
  then have "(sin (x / 2))\<^sup>2 \<le> x\<^sup>2 / 4" by (simp add: power_divide)
  moreover have "cos x = 1 - 2 * (sin (x / 2))\<^sup>2"
    using cos_double_sin [of "x / 2"] by simp
  ultimately show ?thesis by linarith
qed

lemma cos_d_small:
  assumes "isFinite_d x" "\<bar>val_d x\<bar> \<le> pow2 (- 28)"
  shows "cos_d x = Finite 1"
proof -
  have "\<bar>val_d x\<bar>\<^sup>2 \<le> (pow2 (- 28))\<^sup>2" using assms(2) by (intro power_mono) auto
  then have "(val_d x)\<^sup>2 \<le> 1 / 2 ^ 56" by (simp add: pow2_def power_divide)
  then have lo: "1 - 1 / 2 ^ 54 < cos (val_d x)"
    using cos_lower [of "val_d x"] by simp
  have r: "rnd (cos (val_d x)) = 1" by (rule rnd_near_one [OF lo]) simp
  have "cos (val_d x) \<le> 1" by simp
  moreover have "1 < threshold" by (simp add: threshold_def)
  ultimately have "cos (val_d x) < threshold" by linarith
  then show ?thesis
    using assms(1) lo by (simp add: cos_d_def round_real_def round_to_def r make_def)
qed



lemma circularSegmentArea_d_floor:
  assumes "fle (fmul r (fsub (Finite 1) (cos_d (fdiv (fdiv (fmul a PI_d) (Finite 180)) (Finite 2))))) (Finite 0)"
  shows "circularSegmentArea_d r a = Finite 0"
  using assms by (simp add: circularSegmentArea_d_def Let_def)


lemma circularSegmentArea_d_small_angle:
  assumes "isFinite_d r" "isFinite_d a" "\<bar>val_d a\<bar> \<le> 1 / 2 ^ 22"
  shows "circularSegmentArea_d r a = Finite 0"
proof -
  have "\<bar>val_d a\<bar> \<le> pow2 (- 22)" using assms(3) by (simp add: pow2_def)
  then have x: "isFinite_d (fdiv (fdiv (fmul a PI_d) (Finite 180)) (Finite 2))"
    "\<bar>val_d (fdiv (fdiv (fmul a PI_d) (Finite 180)) (Finite 2))\<bar> \<le> pow2 (- 22 - 6)"
    using half_angle_bound [OF assms(2), of "- 22"] by simp_all
  have c: "cos_d (fdiv (fdiv (fmul a PI_d) (Finite 180)) (Finite 2)) = Finite 1"
    using x by (intro cos_d_small) simp_all
  have d: "fsub (Finite 1) (Finite 1) = Finite 0"
    by (simp add: fsub_def fadd_def signed_zero_def)
  have h: "fmul r (Finite 0) = signed_zero (negative r)"
    using assms(1) by (auto simp add: fmul_def isFinite_not_NaN)
  show ?thesis
    by (rule circularSegmentArea_d_floor) (simp add: c d h fle_def signed_zero_def)
qed


text \<open>
  Claim C10, as the code has it on doubles: \<^verbatim>\<open>circularSegmentArea\<close> is even in its
  angle, for every radius and every angle, also the zeros, the infinities and \<^verbatim>\<open>NaN\<close>:
  the angle enters only through the cosine of \<open>\<theta>/2\<close>, and negating the angle negates
  \<open>\<theta>/2\<close> exactly. So a negative angle yields what its absolute value yields; whether
  that is positive is another matter.
\<close>

theorem circularSegmentArea_d_even:
  "circularSegmentArea_d r (fneg a) = circularSegmentArea_d r a
   \<and> circularSegmentArea_d r (Finite (- x)) = circularSegmentArea_d r (Finite x)
   \<and> circularSegmentArea_d r (Finite x) = circularSegmentArea_d r (Finite \<bar>x\<bar>)"
proof -
  have e: "circularSegmentArea_d r (Finite (- y)) = circularSegmentArea_d r (Finite y)" for y
  proof (cases "y = 0")
    case True
    then show ?thesis by simp
  next
    case False
    then have "Finite (- y) = fneg (Finite y)" by simp
    then show ?thesis by (simp only: circularSegmentArea_d_fneg)
  qed
  have "circularSegmentArea_d r (Finite x) = circularSegmentArea_d r (Finite \<bar>x\<bar>)"
    using e [of x] by (cases "x < 0") (simp_all add: abs_if)
  then show ?thesis using e [of x] by (simp add: circularSegmentArea_d_fneg)
qed

text \<open>
  Against claim C10 as stated (a negative angle with \<open>r > 0\<close> yields a positive area, not
  \<^verbatim>\<open>0\<close>): at radius \<open>1\<close> and angle \<open>-2^(-30)\<close> degrees the cosine of \<open>\<theta>/2\<close> rounds to
  \<open>1\<close>, the chord height is \<open>0\<close> and the result is \<^verbatim>\<open>0\<close>, as it is for the angle
  \<open>2^(-30)\<close>.
\<close>

theorem circularSegmentArea_d_even_counterexample:
  "circularSegmentArea_d (Finite 1) (Finite (- (1 / 2 ^ 30))) = Finite 0
   \<and> circularSegmentArea_d (Finite 1) (Finite (1 / 2 ^ 30)) = Finite 0"
  by (simp add: circularSegmentArea_d_small_angle)




section \<open>The dovetail cross-section on doubles\<close>














section \<open>Unit conversion on doubles\<close>

lemma rnd_eval:
  assumes "pow2 e \<le> m" "m < pow2 (e + 1)" "- 1022 \<le> e"
    "rne (m / pow2 (e - 52)) = n"
  shows "rnd m = pow2 (e - 52) * of_int n"
proof -
  have m: "0 < m" using assms(1) pow2_pos [of e] by linarith
  have "max e (- 1022) = e" using assms(3) by simp
  then have u: "ulp m = pow2 (e - 52)"
    using exponent_eq [OF assms(1,2)] by (simp add: ulp_def)
  show ?thesis using m by (simp add: rnd_def u assms(4))
qed

lemma IN_TO_MM_d_value: "IN_TO_MM_d = Finite (3574732204225331 / 2 ^ 47)"
proof -
  have f: "\<lfloor>(254 / 10 :: real) / pow2 (4 - 52)\<rfloor> = 7149464408450662"
    by (simp add: pow2_def)
  have "rne ((254 / 10) / pow2 (4 - 52)) = 7149464408450662"
    unfolding rne_def Let_def f by (simp add: pow2_def)
  then have "rnd (254 / 10) = pow2 (4 - 52) * of_int 7149464408450662"
    by (intro rnd_eval) (simp_all add: pow2_def)
  then have "rnd (254 / 10) = 3574732204225331 / 2 ^ 47" by (simp add: pow2_def)
  then show ?thesis
    by (simp add: IN_TO_MM_d_def round_real_def round_to_def threshold_def make_def)
qed

lemma isInf_infinity [simp]: "isInf (infinity s)"
  by (simp add: isInf_def infinity_def)

lemma isInf_not_finite: "isInf d \<Longrightarrow> \<not> isFinite_d d"
  by (auto simp add: isInf_def)

lemma near_exact: "isFinite_d v \<Longrightarrow> near v (val_d v) 0"
  by (simp add: near_def)

lemma fmul_const_inf: "isInf a \<Longrightarrow> k \<noteq> 0 \<Longrightarrow> isInf (fmul a (Finite k))"
  by (auto simp add: isInf_def fmul_def infinity_def)

lemma fdiv_const_inf: "isInf a \<Longrightarrow> isInf (fdiv a (Finite k))"
  by (auto simp add: isInf_def fdiv_def infinity_def)

lemma fadd_const_inf: "isInf a \<Longrightarrow> isInf (fadd a (Finite k))"
  by (auto simp add: isInf_def fadd_def)

lemma fsub_const_inf: "isInf a \<Longrightarrow> isInf (fsub a (Finite k))"
  by (auto simp add: isInf_def fsub_def fadd_def)

lemma err_combine:
  fixes r p q :: real
  assumes "\<bar>r - p\<bar> \<le> \<bar>p\<bar> / c + h" "\<bar>p\<bar> \<le> M" "\<bar>p - q\<bar> \<le> d" "M / c + h + d \<le> E" "0 < c"
  shows "\<bar>r - q\<bar> \<le> E"
proof -
  have "\<bar>p\<bar> / c \<le> M / c" using assms(2,5) by (simp add: divide_right_mono)
  then show ?thesis using assms(1,3,4) by linarith
qed

lemma fmul_const_near:
  assumes "near a x e" "k \<noteq> 0" "\<bar>x\<bar> \<le> B"
    "(B + e) * \<bar>k\<bar> / 2 ^ 53 + 1 / 2 ^ 1075 + e * \<bar>k\<bar> \<le> E" "x' = x * k"
  shows "near (fmul a (Finite k)) x' E"
    and "isFinite_d a \<Longrightarrow> (B + e) * \<bar>k\<bar> < threshold \<Longrightarrow> isFinite_d (fmul a (Finite k))"
proof -
  have key: "(\<bar>val_d a * k\<bar> < threshold \<longrightarrow> isFinite_d (fmul a (Finite k))
        \<and> \<bar>val_d (fmul a (Finite k)) - x'\<bar> \<le> E)
      \<and> \<bar>val_d a * k\<bar> \<le> (B + e) * \<bar>k\<bar>" if fa: "isFinite_d a"
  proof -
    have d: "\<bar>val_d a - x\<bar> \<le> e"
      using assms(1) fa by (auto simp add: near_def dest: isInf_not_finite)
    then have "\<bar>val_d a\<bar> \<le> B + e" using assms(3) by linarith
    then have p: "\<bar>val_d a * k\<bar> \<le> (B + e) * \<bar>k\<bar>"
      unfolding abs_mult by (intro mult_right_mono) auto
    have q: "\<bar>val_d a * k - x * k\<bar> \<le> e * \<bar>k\<bar>"
    proof -
      have "\<bar>val_d a * k - x * k\<bar> = \<bar>val_d a - x\<bar> * \<bar>k\<bar>"
        by (simp add: abs_mult [symmetric] algebra_simps)
      also have "\<dots> \<le> e * \<bar>k\<bar>" using d by (intro mult_right_mono) auto
      finally show ?thesis .
    qed
    show ?thesis
    proof (intro conjI impI)
      assume t: "\<bar>val_d a * k\<bar> < threshold"
      then have t': "\<bar>val_d a * val_d (Finite k)\<bar> < threshold" by simp
      show "isFinite_d (fmul a (Finite k))"
        by (rule fmul_finite(1) [OF fa _ t']) simp
      have "\<bar>val_d (fmul a (Finite k)) - val_d a * k\<bar> \<le> \<bar>val_d a * k\<bar> / 2 ^ 53 + 1 / 2 ^ 1075"
        using fmul_finite(2) [OF fa _ t'] by simp
      then show "\<bar>val_d (fmul a (Finite k)) - x'\<bar> \<le> E"
        unfolding assms(5) by (rule err_combine [OF _ p q assms(4)]) simp
    qed (rule p)
  qed
  show "near (fmul a (Finite k)) x' E"
  proof (cases "isFinite_d a")
    case False
    then have "isInf a" using assms(1) by (simp add: near_def)
    then show ?thesis using fmul_const_inf [OF _ assms(2)] by (simp add: near_def)
  next
    case True
    show ?thesis
    proof (cases "\<bar>val_d a * k\<bar> < threshold")
      case True
      then show ?thesis using key [OF \<open>isFinite_d a\<close>] by (simp add: near_def)
    next
      case False
      then have "threshold \<le> \<bar>val_d a * val_d (Finite k)\<bar>" by simp
      then have "fmul a (Finite k) = infinity (negative a \<noteq> negative (Finite k))"
        by (intro fmul_overflow \<open>isFinite_d a\<close>) simp_all
      then show ?thesis by (simp add: near_def)
    qed
  qed
  show "isFinite_d (fmul a (Finite k))" if "isFinite_d a" "(B + e) * \<bar>k\<bar> < threshold"
    using key [OF that(1)] that(2) by linarith
qed

lemma fdiv_const_near:
  assumes "near a x e" "k \<noteq> 0" "\<bar>x\<bar> \<le> B"
    "(B + e) / \<bar>k\<bar> / 2 ^ 53 + 1 / 2 ^ 1075 + e / \<bar>k\<bar> \<le> E" "x' = x / k"
  shows "near (fdiv a (Finite k)) x' E"
    and "isFinite_d a \<Longrightarrow> (B + e) / \<bar>k\<bar> < threshold \<Longrightarrow> isFinite_d (fdiv a (Finite k))"
proof -
  have key: "(\<bar>val_d a / k\<bar> < threshold \<longrightarrow> isFinite_d (fdiv a (Finite k))
        \<and> \<bar>val_d (fdiv a (Finite k)) - x'\<bar> \<le> E)
      \<and> \<bar>val_d a / k\<bar> \<le> (B + e) / \<bar>k\<bar>" if fa: "isFinite_d a"
  proof -
    have d: "\<bar>val_d a - x\<bar> \<le> e"
      using assms(1) fa by (auto simp add: near_def dest: isInf_not_finite)
    then have "\<bar>val_d a\<bar> \<le> B + e" using assms(3) by linarith
    then have p: "\<bar>val_d a / k\<bar> \<le> (B + e) / \<bar>k\<bar>"
      unfolding abs_divide by (intro divide_right_mono) auto
    have q: "\<bar>val_d a / k - x / k\<bar> \<le> e / \<bar>k\<bar>"
    proof -
      have "\<bar>val_d a / k - x / k\<bar> = \<bar>val_d a - x\<bar> / \<bar>k\<bar>"
        by (simp add: abs_divide [symmetric] diff_divide_distrib)
      also have "\<dots> \<le> e / \<bar>k\<bar>" using d by (intro divide_right_mono) auto
      finally show ?thesis .
    qed
    show ?thesis
    proof (intro conjI impI)
      assume t: "\<bar>val_d a / k\<bar> < threshold"
      then have t': "\<bar>val_d a / val_d (Finite k)\<bar> < threshold" by simp
      have k: "val_d (Finite k) \<noteq> 0" using assms(2) by simp
      show "isFinite_d (fdiv a (Finite k))"
        by (rule fdiv_finite(1) [OF fa _ k t']) simp
      have "\<bar>val_d (fdiv a (Finite k)) - val_d a / k\<bar> \<le> \<bar>val_d a / k\<bar> / 2 ^ 53 + 1 / 2 ^ 1075"
        using fdiv_finite(2) [OF fa _ k t'] by simp
      then show "\<bar>val_d (fdiv a (Finite k)) - x'\<bar> \<le> E"
        unfolding assms(5) by (rule err_combine [OF _ p q assms(4)]) simp
    qed (rule p)
  qed
  show "near (fdiv a (Finite k)) x' E"
  proof (cases "isFinite_d a")
    case False
    then have "isInf a" using assms(1) by (simp add: near_def)
    then show ?thesis using fdiv_const_inf by (simp add: near_def)
  next
    case True
    show ?thesis
    proof (cases "\<bar>val_d a / k\<bar> < threshold")
      case True
      then show ?thesis using key [OF \<open>isFinite_d a\<close>] by (simp add: near_def)
    next
      case False
      then have "threshold \<le> \<bar>val_d a / val_d (Finite k)\<bar>" by simp
      then have "fdiv a (Finite k) = infinity (negative a \<noteq> negative (Finite k))"
        using assms(2) by (intro fdiv_overflow \<open>isFinite_d a\<close>) simp_all
      then show ?thesis by (simp add: near_def)
    qed
  qed
  show "isFinite_d (fdiv a (Finite k))" if "isFinite_d a" "(B + e) / \<bar>k\<bar> < threshold"
    using key [OF that(1)] that(2) by linarith
qed

lemma fadd_const_near:
  assumes "near a x e" "\<bar>x + k\<bar> \<le> B"
    "(B + e) / 2 ^ 53 + 1 / 2 ^ 1075 + e \<le> E" "x' = x + k"
  shows "near (fadd a (Finite k)) x' E"
    and "isFinite_d a \<Longrightarrow> B + e < threshold \<Longrightarrow> isFinite_d (fadd a (Finite k))"
proof -
  have key: "(\<bar>val_d a + k\<bar> < threshold \<longrightarrow> isFinite_d (fadd a (Finite k))
        \<and> \<bar>val_d (fadd a (Finite k)) - x'\<bar> \<le> E)
      \<and> \<bar>val_d a + k\<bar> \<le> B + e" if fa: "isFinite_d a"
  proof -
    have d: "\<bar>val_d a - x\<bar> \<le> e"
      using assms(1) fa by (auto simp add: near_def dest: isInf_not_finite)
    then have p: "\<bar>val_d a + k\<bar> \<le> B + e" using assms(2) by linarith
    show ?thesis
    proof (intro conjI impI)
      assume t: "\<bar>val_d a + k\<bar> < threshold"
      then have t': "\<bar>val_d a + val_d (Finite k)\<bar> < threshold" by simp
      show "isFinite_d (fadd a (Finite k))"
        by (rule fadd_finite(1) [OF fa _ t']) simp
      have "\<bar>val_d (fadd a (Finite k)) - (val_d a + k)\<bar> \<le> \<bar>val_d a + k\<bar> / 2 ^ 53 + 1 / 2 ^ 1075"
        using fadd_finite(2) [OF fa _ t'] by simp
      moreover have "\<bar>val_d a + k - (x + k)\<bar> \<le> e" using d by simp
      ultimately show "\<bar>val_d (fadd a (Finite k)) - x'\<bar> \<le> E"
        unfolding assms(4) by (rule err_combine [OF _ p _ assms(3)]) simp
    qed (rule p)
  qed
  show "near (fadd a (Finite k)) x' E"
  proof (cases "isFinite_d a")
    case False
    then have "isInf a" using assms(1) by (simp add: near_def)
    then show ?thesis using fadd_const_inf by (simp add: near_def)
  next
    case True
    show ?thesis
    proof (cases "\<bar>val_d a + k\<bar> < threshold")
      case True
      then show ?thesis using key [OF \<open>isFinite_d a\<close>] by (simp add: near_def)
    next
      case False
      then have "threshold \<le> \<bar>val_d a + val_d (Finite k)\<bar>" by simp
      then have "fadd a (Finite k) = infinity (val_d a + val_d (Finite k) < 0)"
        by (intro fadd_overflow \<open>isFinite_d a\<close>) simp_all
      then show ?thesis by (simp add: near_def)
    qed
  qed
  show "isFinite_d (fadd a (Finite k))" if "isFinite_d a" "B + e < threshold"
    using key [OF that(1)] that(2) by linarith
qed

lemma fneg_Finite_val: "val_d (fneg (Finite k)) = - k" "isFinite_d (fneg (Finite k))"
  by simp_all

lemma fsub_const_near:
  assumes "near a x e" "\<bar>x - k\<bar> \<le> B"
    "(B + e) / 2 ^ 53 + 1 / 2 ^ 1075 + e \<le> E" "x' = x - k"
  shows "near (fsub a (Finite k)) x' E"
    and "isFinite_d a \<Longrightarrow> B + e < threshold \<Longrightarrow> isFinite_d (fsub a (Finite k))"
proof -
  have key: "(\<bar>val_d a - k\<bar> < threshold \<longrightarrow> isFinite_d (fsub a (Finite k))
        \<and> \<bar>val_d (fsub a (Finite k)) - x'\<bar> \<le> E)
      \<and> \<bar>val_d a - k\<bar> \<le> B + e" if fa: "isFinite_d a"
  proof -
    have d: "\<bar>val_d a - x\<bar> \<le> e"
      using assms(1) fa by (auto simp add: near_def dest: isInf_not_finite)
    then have p: "\<bar>val_d a - k\<bar> \<le> B + e" using assms(2) by linarith
    show ?thesis
    proof (intro conjI impI)
      assume t: "\<bar>val_d a - k\<bar> < threshold"
      then have t': "\<bar>val_d a - val_d (Finite k)\<bar> < threshold" by simp
      show "isFinite_d (fsub a (Finite k))"
        by (rule fsub_finite(1) [OF fa _ t']) simp
      have "\<bar>val_d (fsub a (Finite k)) - (val_d a - k)\<bar> \<le> \<bar>val_d a - k\<bar> / 2 ^ 53 + 1 / 2 ^ 1075"
        using fsub_finite(2) [OF fa _ t'] by simp
      moreover have "\<bar>val_d a - k - (x - k)\<bar> \<le> e" using d by simp
      ultimately show "\<bar>val_d (fsub a (Finite k)) - x'\<bar> \<le> E"
        unfolding assms(4) by (rule err_combine [OF _ p _ assms(3)]) simp
    qed (rule p)
  qed
  show "near (fsub a (Finite k)) x' E"
  proof (cases "isFinite_d a")
    case False
    then have "isInf a" using assms(1) by (simp add: near_def)
    then show ?thesis using fsub_const_inf by (simp add: near_def)
  next
    case True
    show ?thesis
    proof (cases "\<bar>val_d a - k\<bar> < threshold")
      case True
      then show ?thesis using key [OF \<open>isFinite_d a\<close>] by (simp add: near_def)
    next
      case False
      then have "threshold \<le> \<bar>val_d a + val_d (fneg (Finite k))\<bar>" by auto
      then have "fadd a (fneg (Finite k)) = infinity (val_d a + val_d (fneg (Finite k)) < 0)"
        by (intro fadd_overflow \<open>isFinite_d a\<close>) simp_all
      then show ?thesis by (simp add: near_def fsub_def)
    qed
  qed
  show "isFinite_d (fsub a (Finite k))" if "isFinite_d a" "B + e < threshold"
    using key [OF that(1)] that(2) by linarith
qed

lemma convert_d_not_finite: "\<not> isFinite_d w \<Longrightarrow> convert_d (Num_d w) A B = Str_d []"
  by (simp add: convert_d_def)

lemma convert_d_pairs:
  assumes "isFinite_d v"
  shows "convert_d (Num_d v) (js ''in'') (js ''mm'') = Num_d (fmul v IN_TO_MM_d)"
    and "convert_d (Num_d v) (js ''mm'') (js ''in'') = Num_d (fdiv v IN_TO_MM_d)"
    and "convert_d (Num_d v) (js ''C'') (js ''F'')
          = Num_d (fadd (fdiv (fmul v (Finite 9)) (Finite 5)) (Finite 32))"
    and "convert_d (Num_d v) (js ''F'') (js ''C'')
          = Num_d (fdiv (fmul (fsub v (Finite 32)) (Finite 5)) (Finite 9))"
  using assms by (simp_all add: convert_d_def js_def)

lemma round_trip_cases:
  assumes "convert_d (Num_d v) A B = Num_d w"
    and "isFinite_d w \<Longrightarrow> convert_d (Num_d w) B A = Num_d u"
    and "isFinite_d w \<Longrightarrow> near u x tol"
  shows "overflowed (round_trip v A B) \<or> close_to (round_trip v A B) x tol"
    and "isFinite_d w \<Longrightarrow> isFinite_d u \<Longrightarrow> close_to (round_trip v A B) x tol"
proof -
  show "overflowed (round_trip v A B) \<or> close_to (round_trip v A B) x tol"
  proof (cases "isFinite_d w")
    case False
    then show ?thesis
      by (simp add: round_trip_def assms(1) convert_d_not_finite overflowed_def)
  next
    case True
    then show ?thesis
      using assms(2,3)
      by (auto simp add: round_trip_def assms(1) overflowed_def close_to_def near_def isInf_def)
  qed
  show "close_to (round_trip v A B) x tol" if "isFinite_d w" "isFinite_d u"
    using assms(2,3) that
    by (auto simp add: round_trip_def assms(1) close_to_def near_def dest: isInf_not_finite)
qed

lemma round_trip_in_mm:
  assumes "isFinite_d v"
  shows "overflowed (round_trip v (js ''in'') (js ''mm''))
       \<or> close_to (round_trip v (js ''in'') (js ''mm'')) (val_d v) (length_tolerance (val_d v))"
    and "\<bar>val_d v\<bar> \<le> 2 ^ 1000
       \<Longrightarrow> close_to (round_trip v (js ''in'') (js ''mm'')) (val_d v) (length_tolerance (val_d v))"
proof -
  define V where "V = \<bar>val_d v\<bar>"
  define c :: real where "c = 3574732204225331 / 2 ^ 47"
  define w where "w = fmul v (Finite c)"
  define u where "u = fdiv w (Finite c)"
  define E1 where "E1 = V * c / 2 ^ 53 + 1 / 2 ^ 1075"
  have V0: "0 \<le> V" by (simp add: V_def)
  have c: "IN_TO_MM_d = Finite c" "c \<noteq> 0" "\<bar>c\<bar> = c" "0 < c"
    by (simp_all add: IN_TO_MM_d_value c_def)
  have s1: "(V + 0) * \<bar>c\<bar> / 2 ^ 53 + 1 / 2 ^ 1075 + 0 * \<bar>c\<bar> \<le> E1"
    by (simp add: E1_def c(3))
  have n1: "near w (val_d v * c) E1" unfolding w_def
    by (rule fmul_const_near(1) [OF near_exact [OF assms] c(2) _ s1]) (simp_all add: V_def)
  have b2: "\<bar>val_d v * c\<bar> \<le> V * c" by (simp add: V_def abs_mult c(3))
  have s2: "(V * c + E1) / \<bar>c\<bar> / 2 ^ 53 + 1 / 2 ^ 1075 + E1 / \<bar>c\<bar> \<le> length_tolerance (val_d v)"
    unfolding c(3) E1_def length_tolerance_def V_def [symmetric] c_def using V0
    by (simp add: add_divide_distrib)
  have n2: "near u (val_d v) (length_tolerance (val_d v))" unfolding u_def
    by (rule fdiv_const_near(1) [OF n1 c(2) b2 s2]) (simp add: c(2))
  have c1: "convert_d (Num_d v) (js ''in'') (js ''mm'') = Num_d w"
    by (simp add: convert_d_pairs(1) [OF assms] c(1) w_def)
  have c2: "isFinite_d w \<Longrightarrow> convert_d (Num_d w) (js ''mm'') (js ''in'') = Num_d u"
    by (simp add: convert_d_pairs(2) c(1) u_def)
  show "overflowed (round_trip v (js ''in'') (js ''mm''))
       \<or> close_to (round_trip v (js ''in'') (js ''mm'')) (val_d v) (length_tolerance (val_d v))"
    by (rule round_trip_cases(1) [OF c1 c2 n2])
  show "close_to (round_trip v (js ''in'') (js ''mm'')) (val_d v) (length_tolerance (val_d v))"
    if "\<bar>val_d v\<bar> \<le> 2 ^ 1000"
  proof -
    have V: "V \<le> 2 ^ 1000" using that by (simp add: V_def)
    have t1: "(V + 0) * \<bar>c\<bar> < threshold"
      unfolding c(3) c_def threshold_def using V by simp
    have f1: "isFinite_d w" unfolding w_def
      by (rule fmul_const_near(2) [OF near_exact [OF assms] c(2) _ s1 _ assms t1])
        (simp_all add: V_def)
    have t2: "(V * c + E1) / \<bar>c\<bar> < threshold"
      unfolding c(3) E1_def c_def threshold_def using V by simp
    have f2: "isFinite_d u" unfolding u_def
      by (rule fdiv_const_near(2) [OF n1 c(2) b2 s2 refl f1 t2])
    show ?thesis by (rule round_trip_cases(2) [OF c1 c2 n2 f1 f2])
  qed
qed

lemma round_trip_mm_in:
  assumes "isFinite_d v"
  shows "overflowed (round_trip v (js ''mm'') (js ''in''))
       \<or> close_to (round_trip v (js ''mm'') (js ''in'')) (val_d v) (length_tolerance (val_d v))"
    and "\<bar>val_d v\<bar> \<le> 2 ^ 1000
       \<Longrightarrow> close_to (round_trip v (js ''mm'') (js ''in'')) (val_d v) (length_tolerance (val_d v))"
proof -
  define V where "V = \<bar>val_d v\<bar>"
  define c :: real where "c = 3574732204225331 / 2 ^ 47"
  define w where "w = fdiv v (Finite c)"
  define u where "u = fmul w (Finite c)"
  define E1 where "E1 = V / c / 2 ^ 53 + 1 / 2 ^ 1075"
  have V0: "0 \<le> V" by (simp add: V_def)
  have c: "IN_TO_MM_d = Finite c" "c \<noteq> 0" "\<bar>c\<bar> = c" "0 < c"
    by (simp_all add: IN_TO_MM_d_value c_def)
  have s1: "(V + 0) / \<bar>c\<bar> / 2 ^ 53 + 1 / 2 ^ 1075 + 0 / \<bar>c\<bar> \<le> E1"
    by (simp add: E1_def c(3))
  have n1: "near w (val_d v / c) E1" unfolding w_def
    by (rule fdiv_const_near(1) [OF near_exact [OF assms] c(2) _ s1]) (simp_all add: V_def)
  have b2: "\<bar>val_d v / c\<bar> \<le> V / c" by (simp add: V_def c(3))
  have s2: "(V / c + E1) * \<bar>c\<bar> / 2 ^ 53 + 1 / 2 ^ 1075 + E1 * \<bar>c\<bar> \<le> length_tolerance (val_d v)"
    unfolding c(3) E1_def length_tolerance_def V_def [symmetric] c_def using V0
    by (simp add: add_divide_distrib distrib_right distrib_left)
  have n2: "near u (val_d v) (length_tolerance (val_d v))" unfolding u_def
    by (rule fmul_const_near(1) [OF n1 c(2) b2 s2]) (simp add: c(2))
  have c1: "convert_d (Num_d v) (js ''mm'') (js ''in'') = Num_d w"
    by (simp add: convert_d_pairs(2) [OF assms] c(1) w_def)
  have c2: "isFinite_d w \<Longrightarrow> convert_d (Num_d w) (js ''in'') (js ''mm'') = Num_d u"
    by (simp add: convert_d_pairs(1) c(1) u_def)
  show "overflowed (round_trip v (js ''mm'') (js ''in''))
       \<or> close_to (round_trip v (js ''mm'') (js ''in'')) (val_d v) (length_tolerance (val_d v))"
    by (rule round_trip_cases(1) [OF c1 c2 n2])
  show "close_to (round_trip v (js ''mm'') (js ''in'')) (val_d v) (length_tolerance (val_d v))"
    if "\<bar>val_d v\<bar> \<le> 2 ^ 1000"
  proof -
    have V: "V \<le> 2 ^ 1000" using that by (simp add: V_def)
    have t1: "(V + 0) / \<bar>c\<bar> < threshold"
      unfolding c(3) c_def threshold_def using V by simp
    have f1: "isFinite_d w" unfolding w_def
      by (rule fdiv_const_near(2) [OF near_exact [OF assms] c(2) _ s1 _ assms t1])
        (simp_all add: V_def)
    have t2: "(V / c + E1) * \<bar>c\<bar> < threshold"
      unfolding c(3) E1_def c_def threshold_def using V by (simp add: add_divide_distrib distrib_right distrib_left)
    have f2: "isFinite_d u" unfolding u_def
      by (rule fmul_const_near(2) [OF n1 c(2) b2 s2 refl f1 t2])
    show ?thesis by (rule round_trip_cases(2) [OF c1 c2 n2 f1 f2])
  qed
qed

lemma round_trip_C_F:
  assumes "isFinite_d v"
  shows "overflowed (round_trip v (js ''C'') (js ''F''))
       \<or> close_to (round_trip v (js ''C'') (js ''F'')) (val_d v) (temperature_tolerance (val_d v))"
    and "\<bar>val_d v\<bar> \<le> 2 ^ 1000
       \<Longrightarrow> close_to (round_trip v (js ''C'') (js ''F'')) (val_d v) (temperature_tolerance (val_d v))"
proof -
  define V where "V = \<bar>val_d v\<bar>"
  define x where "x = val_d v"
  define a1 where "a1 = fmul v (Finite 9)"
  define a2 where "a2 = fdiv a1 (Finite 5)"
  define w where "w = fadd a2 (Finite 32)"
  define b1 where "b1 = fsub w (Finite 32)"
  define b2 where "b2 = fmul b1 (Finite 5)"
  define u where "u = fdiv b2 (Finite 9)"
  define E1 where "E1 = 9 * V / 2 ^ 53 + 1 / 2 ^ 1075"
  define E2 where "E2 = 4 * V / 2 ^ 53 + 2 / 2 ^ 1075"
  define E3 where "E3 = 6 * V / 2 ^ 53 + 33 / 2 ^ 53 + 4 / 2 ^ 1075"
  define E4 where "E4 = 8 * V / 2 ^ 53 + 34 / 2 ^ 53 + 6 / 2 ^ 1075"
  define E5 where "E5 = 50 * V / 2 ^ 53 + 171 / 2 ^ 53 + 32 / 2 ^ 1075"
  have V0: "0 \<le> V" by (simp add: V_def)
  have xV: "\<bar>x\<bar> = V" by (simp add: x_def V_def)
  have s1: "(V + 0) * \<bar>9\<bar> / 2 ^ 53 + 1 / 2 ^ 1075 + 0 * \<bar>9\<bar> \<le> E1"
    by (simp add: E1_def)
  have n0: "near v x 0" unfolding x_def by (rule near_exact [OF assms])
  have B1: "\<bar>x\<bar> \<le> V" by (simp add: xV)
  have n1: "near a1 (x * 9) E1" unfolding a1_def
    by (rule fmul_const_near(1) [OF n0 _ B1 s1]) simp_all
  have B2: "\<bar>x * 9\<bar> \<le> 9 * V" using xV by simp
  have s2: "(9 * V + E1) / \<bar>5\<bar> / 2 ^ 53 + 1 / 2 ^ 1075 + E1 / \<bar>5\<bar> \<le> E2"
    unfolding E1_def E2_def using V0 by (simp add: add_divide_distrib distrib_right distrib_left)
  have n2: "near a2 (x * 9 / 5) E2" unfolding a2_def
    by (rule fdiv_const_near(1) [OF n1 _ B2 s2]) simp_all
  have B3: "\<bar>x * 9 / 5 + 32\<bar> \<le> 9 * V / 5 + 32"
  proof -
    have "\<bar>x * 9 / 5\<bar> = 9 * V / 5" using xV by (simp add: abs_mult)
    then show ?thesis by linarith
  qed
  have s3: "(9 * V / 5 + 32 + E2) / 2 ^ 53 + 1 / 2 ^ 1075 + E2 \<le> E3"
    unfolding E2_def E3_def using V0 by (simp add: add_divide_distrib distrib_right distrib_left)
  have n3: "near w (x * 9 / 5 + 32) E3" unfolding w_def
    by (rule fadd_const_near(1) [OF n2 B3 s3]) simp
  have B4: "\<bar>x * 9 / 5 + 32 - 32\<bar> \<le> 9 * V / 5" using xV by (simp add: abs_mult)
  have s4: "(9 * V / 5 + E3) / 2 ^ 53 + 1 / 2 ^ 1075 + E3 \<le> E4"
    unfolding E3_def E4_def using V0 by (simp add: add_divide_distrib distrib_right distrib_left)
  have n4: "near b1 (x * 9 / 5) E4" unfolding b1_def
    by (rule fsub_const_near(1) [OF n3 B4 s4]) simp
  have B5: "\<bar>x * 9 / 5\<bar> \<le> 9 * V / 5" using xV by (simp add: abs_mult)
  have s5: "(9 * V / 5 + E4) * \<bar>5\<bar> / 2 ^ 53 + 1 / 2 ^ 1075 + E4 * \<bar>5\<bar> \<le> E5"
    unfolding E4_def E5_def using V0 by (simp add: add_divide_distrib distrib_right distrib_left)
  have n5: "near b2 (x * 9) E5" unfolding b2_def
    by (rule fmul_const_near(1) [OF n4 _ B5 s5]) simp_all
  have s6: "(9 * V + E5) / \<bar>9\<bar> / 2 ^ 53 + 1 / 2 ^ 1075 + E5 / \<bar>9\<bar> \<le> temperature_tolerance x"
    unfolding E5_def temperature_tolerance_def xV using V0 by (simp add: add_divide_distrib distrib_right distrib_left)
  have n6: "near u x (temperature_tolerance x)" unfolding u_def
    by (rule fdiv_const_near(1) [OF n5 _ B2 s6]) simp_all
  have c1: "convert_d (Num_d v) (js ''C'') (js ''F'') = Num_d w"
    by (simp add: convert_d_pairs(3) [OF assms] w_def a2_def a1_def)
  have c2: "isFinite_d w \<Longrightarrow> convert_d (Num_d w) (js ''F'') (js ''C'') = Num_d u"
    by (simp add: convert_d_pairs(4) u_def b2_def b1_def)
  show "overflowed (round_trip v (js ''C'') (js ''F''))
       \<or> close_to (round_trip v (js ''C'') (js ''F'')) (val_d v) (temperature_tolerance (val_d v))"
    using round_trip_cases(1) [OF c1 c2 n6] by (simp add: x_def)
  show "close_to (round_trip v (js ''C'') (js ''F'')) (val_d v) (temperature_tolerance (val_d v))"
    if "\<bar>val_d v\<bar> \<le> 2 ^ 1000"
  proof -
    have V: "V \<le> 2 ^ 1000" using that by (simp add: V_def)
    have t1: "(V + 0) * \<bar>9\<bar> < threshold" unfolding threshold_def using V by simp
    have f1: "isFinite_d a1" unfolding a1_def
      by (rule fmul_const_near(2) [OF n0 _ B1 s1 refl assms t1]) simp
    have t2: "(9 * V + E1) / \<bar>5\<bar> < threshold"
      unfolding E1_def threshold_def using V by (simp add: add_divide_distrib distrib_right distrib_left)
    have f2: "isFinite_d a2" unfolding a2_def
      by (rule fdiv_const_near(2) [OF n1 _ B2 s2 refl f1 t2]) simp
    have t3: "9 * V / 5 + 32 + E2 < threshold"
      unfolding E2_def threshold_def using V by (simp add: add_divide_distrib distrib_right distrib_left)
    have f3: "isFinite_d w" unfolding w_def
      by (rule fadd_const_near(2) [OF n2 B3 s3 refl f2 t3])
    have t4: "9 * V / 5 + E3 < threshold"
      unfolding E3_def threshold_def using V by (simp add: add_divide_distrib distrib_right distrib_left)
    have f4: "isFinite_d b1" unfolding b1_def
      by (rule fsub_const_near(2) [OF n3 B4 s4 refl f3 t4])
    have t5: "(9 * V / 5 + E4) * \<bar>5\<bar> < threshold"
      unfolding E4_def threshold_def using V by (simp add: add_divide_distrib distrib_right distrib_left)
    have f5: "isFinite_d b2" unfolding b2_def
      by (rule fmul_const_near(2) [OF n4 _ B5 s5 refl f4 t5]) simp
    have t6: "(9 * V + E5) / \<bar>9\<bar> < threshold"
      unfolding E5_def threshold_def using V by (simp add: add_divide_distrib distrib_right distrib_left)
    have f6: "isFinite_d u" unfolding u_def
      by (rule fdiv_const_near(2) [OF n5 _ B2 s6 refl f5 t6]) simp
    show ?thesis using round_trip_cases(2) [OF c1 c2 n6 f3 f6] by (simp add: x_def)
  qed
qed

lemma round_trip_F_C:
  assumes "isFinite_d v"
  shows "overflowed (round_trip v (js ''F'') (js ''C''))
       \<or> close_to (round_trip v (js ''F'') (js ''C'')) (val_d v) (temperature_tolerance (val_d v))"
    and "\<bar>val_d v\<bar> \<le> 2 ^ 1000
       \<Longrightarrow> close_to (round_trip v (js ''F'') (js ''C'')) (val_d v) (temperature_tolerance (val_d v))"
proof -
  define V where "V = \<bar>val_d v\<bar>"
  define W where "W = V + 32"
  define x where "x = val_d v"
  define a1 where "a1 = fsub v (Finite 32)"
  define a2 where "a2 = fmul a1 (Finite 5)"
  define w where "w = fdiv a2 (Finite 9)"
  define b1 where "b1 = fmul w (Finite 9)"
  define b2 where "b2 = fdiv b1 (Finite 5)"
  define u where "u = fadd b2 (Finite 32)"
  define E1 where "E1 = W / 2 ^ 53 + 1 / 2 ^ 1075"
  define E2 where "E2 = 11 * W / 2 ^ 53 + 7 / 2 ^ 1075"
  define E3 where "E3 = 2 * W / 2 ^ 53 + 2 / 2 ^ 1075"
  define E4 where "E4 = 24 * W / 2 ^ 53 + 20 / 2 ^ 1075"
  define E5 where "E5 = 6 * W / 2 ^ 53 + 6 / 2 ^ 1075"
  have V0: "0 \<le> V" by (simp add: V_def)
  have W0: "32 \<le> W" using V0 by (simp add: W_def)
  have xV: "\<bar>x\<bar> = V" by (simp add: x_def V_def)
  have n0: "near v x 0" unfolding x_def by (rule near_exact [OF assms])
  have B1: "\<bar>x - 32\<bar> \<le> W" using xV unfolding W_def by linarith
  have s1: "(W + 0) / 2 ^ 53 + 1 / 2 ^ 1075 + 0 \<le> E1" by (simp add: E1_def)
  have n1: "near a1 (x - 32) E1" unfolding a1_def
    by (rule fsub_const_near(1) [OF n0 B1 s1]) simp
  have s2: "(W + E1) * \<bar>5\<bar> / 2 ^ 53 + 1 / 2 ^ 1075 + E1 * \<bar>5\<bar> \<le> E2"
    unfolding E1_def E2_def using W0 by (simp add: add_divide_distrib distrib_right distrib_left)
  have n2: "near a2 ((x - 32) * 5) E2" unfolding a2_def
    by (rule fmul_const_near(1) [OF n1 _ B1 s2]) simp_all
  have B3: "\<bar>(x - 32) * 5\<bar> \<le> 5 * W" using B1 by (simp add: abs_mult)
  have s3: "(5 * W + E2) / \<bar>9\<bar> / 2 ^ 53 + 1 / 2 ^ 1075 + E2 / \<bar>9\<bar> \<le> E3"
    unfolding E2_def E3_def using W0 by (simp add: add_divide_distrib distrib_right distrib_left)
  have n3: "near w ((x - 32) * 5 / 9) E3" unfolding w_def
    by (rule fdiv_const_near(1) [OF n2 _ B3 s3]) simp_all
  have B4: "\<bar>(x - 32) * 5 / 9\<bar> \<le> 5 * W / 9" using B1 by (simp add: abs_mult)
  have s4: "(5 * W / 9 + E3) * \<bar>9\<bar> / 2 ^ 53 + 1 / 2 ^ 1075 + E3 * \<bar>9\<bar> \<le> E4"
    unfolding E3_def E4_def using W0 by (simp add: add_divide_distrib distrib_right distrib_left)
  have n4: "near b1 ((x - 32) * 5) E4" unfolding b1_def
    by (rule fmul_const_near(1) [OF n3 _ B4 s4]) simp_all
  have s5: "(5 * W + E4) / \<bar>5\<bar> / 2 ^ 53 + 1 / 2 ^ 1075 + E4 / \<bar>5\<bar> \<le> E5"
    unfolding E4_def E5_def using W0 by (simp add: add_divide_distrib distrib_right distrib_left)
  have n5: "near b2 (x - 32) E5" unfolding b2_def
    by (rule fdiv_const_near(1) [OF n4 _ B3 s5]) simp_all
  have B6: "\<bar>x - 32 + 32\<bar> \<le> V" using xV by simp
  have s6: "(V + E5) / 2 ^ 53 + 1 / 2 ^ 1075 + E5 \<le> temperature_tolerance x"
    unfolding E5_def temperature_tolerance_def xV W_def using V0 by (simp add: add_divide_distrib distrib_right distrib_left)
  have n6: "near u x (temperature_tolerance x)" unfolding u_def
    by (rule fadd_const_near(1) [OF n5 B6 s6]) simp
  have c1: "convert_d (Num_d v) (js ''F'') (js ''C'') = Num_d w"
    by (simp add: convert_d_pairs(4) [OF assms] w_def a2_def a1_def)
  have c2: "isFinite_d w \<Longrightarrow> convert_d (Num_d w) (js ''C'') (js ''F'') = Num_d u"
    by (simp add: convert_d_pairs(3) u_def b2_def b1_def)
  show "overflowed (round_trip v (js ''F'') (js ''C''))
       \<or> close_to (round_trip v (js ''F'') (js ''C'')) (val_d v) (temperature_tolerance (val_d v))"
    using round_trip_cases(1) [OF c1 c2 n6] by (simp add: x_def)
  show "close_to (round_trip v (js ''F'') (js ''C'')) (val_d v) (temperature_tolerance (val_d v))"
    if "\<bar>val_d v\<bar> \<le> 2 ^ 1000"
  proof -
    have V: "W \<le> 2 ^ 1000 + 32" using that by (simp add: V_def W_def)
    have t1: "W + 0 < threshold" unfolding threshold_def using V by simp
    have f1: "isFinite_d a1" unfolding a1_def
      by (rule fsub_const_near(2) [OF n0 B1 s1 refl assms t1])
    have t2: "(W + E1) * \<bar>5\<bar> < threshold"
      unfolding E1_def threshold_def using V by (simp add: add_divide_distrib distrib_right distrib_left)
    have f2: "isFinite_d a2" unfolding a2_def
      by (rule fmul_const_near(2) [OF n1 _ B1 s2 refl f1 t2]) simp
    have t3: "(5 * W + E2) / \<bar>9\<bar> < threshold"
      unfolding E2_def threshold_def using V by (simp add: add_divide_distrib distrib_right distrib_left)
    have f3: "isFinite_d w" unfolding w_def
      by (rule fdiv_const_near(2) [OF n2 _ B3 s3 refl f2 t3]) simp
    have t4: "(5 * W / 9 + E3) * \<bar>9\<bar> < threshold"
      unfolding E3_def threshold_def using V by (simp add: add_divide_distrib distrib_right distrib_left)
    have f4: "isFinite_d b1" unfolding b1_def
      by (rule fmul_const_near(2) [OF n3 _ B4 s4 refl f3 t4]) simp
    have t5: "(5 * W + E4) / \<bar>5\<bar> < threshold"
      unfolding E4_def threshold_def using V by (simp add: add_divide_distrib distrib_right distrib_left)
    have f5: "isFinite_d b2" unfolding b2_def
      by (rule fdiv_const_near(2) [OF n4 _ B3 s5 refl f4 t5]) simp
    have t6: "V + E5 < threshold"
      unfolding E5_def threshold_def W_def using V W_def by (simp add: add_divide_distrib distrib_right distrib_left)
    have f6: "isFinite_d u" unfolding u_def
      by (rule fadd_const_near(2) [OF n5 B6 s6 refl f5 t6])
    show ?thesis using round_trip_cases(2) [OF c1 c2 n6 f3 f6] by (simp add: x_def)
  qed
qed

lemma round_trip_same_unit: "isFinite_d v \<Longrightarrow> round_trip v u u = Num_d v"
  by (simp add: round_trip_def convert_d_def)

text \<open>
  Claim C9, as the code has it on doubles: for every finite \<open>v\<close>, converting there and
  back, for inches and millimetres and for Celsius and Fahrenheit in both directions,
  either overflows or returns a finite number within the tolerance of \<open>v\<close>; up to
  magnitude \<open>2^1000\<close> nothing overflows and the result is within the tolerance; for a unit
  and itself the result is \<open>v\<close>.
\<close>

theorem convert_d_round_trip_tolerance:
  assumes "isFinite_d v"
  shows "(overflowed (round_trip v (js ''in'') (js ''mm''))
          \<or> close_to (round_trip v (js ''in'') (js ''mm'')) (val_d v) (length_tolerance (val_d v)))
       \<and> (overflowed (round_trip v (js ''mm'') (js ''in''))
          \<or> close_to (round_trip v (js ''mm'') (js ''in'')) (val_d v) (length_tolerance (val_d v)))
       \<and> (overflowed (round_trip v (js ''C'') (js ''F''))
          \<or> close_to (round_trip v (js ''C'') (js ''F'')) (val_d v) (temperature_tolerance (val_d v)))
       \<and> (overflowed (round_trip v (js ''F'') (js ''C''))
          \<or> close_to (round_trip v (js ''F'') (js ''C'')) (val_d v) (temperature_tolerance (val_d v)))
       \<and> (\<bar>val_d v\<bar> \<le> 2 ^ 1000 \<longrightarrow>
            close_to (round_trip v (js ''in'') (js ''mm'')) (val_d v) (length_tolerance (val_d v))
          \<and> close_to (round_trip v (js ''mm'') (js ''in'')) (val_d v) (length_tolerance (val_d v))
          \<and> close_to (round_trip v (js ''C'') (js ''F'')) (val_d v) (temperature_tolerance (val_d v))
          \<and> close_to (round_trip v (js ''F'') (js ''C'')) (val_d v) (temperature_tolerance (val_d v)))
       \<and> round_trip v u u = Num_d v"
  using round_trip_in_mm [OF assms] round_trip_mm_in [OF assms]
    round_trip_C_F [OF assms] round_trip_F_C [OF assms] round_trip_same_unit [OF assms]
  by blast

text \<open>The theorem at \<open>v = 100\<close>.\<close>

theorem convert_d_round_trip_tolerance_witness:
  "isFinite_d (Finite 100) \<and> \<bar>val_d (Finite 100)\<bar> \<le> 2 ^ 1000
   \<and> close_to (round_trip (Finite 100) (js ''in'') (js ''mm'')) 100 (length_tolerance 100)
   \<and> close_to (round_trip (Finite 100) (js ''mm'') (js ''in'')) 100 (length_tolerance 100)
   \<and> close_to (round_trip (Finite 100) (js ''C'') (js ''F'')) 100 (temperature_tolerance 100)
   \<and> close_to (round_trip (Finite 100) (js ''F'') (js ''C'')) 100 (temperature_tolerance 100)"
  using convert_d_round_trip_tolerance [of "Finite 100"] by simp

text \<open>
  Against claim C9 as stated (every finite \<open>v\<close>): \<^verbatim>\<open>convert(2^1023, "in", "mm")\<close> is
  \<^verbatim>\<open>Infinity\<close>, and converting that back returns the empty string, which is no number
  within any tolerance of \<open>2^1023\<close>.
\<close>

theorem convert_d_round_trip_overflow_counterexample:
  "isFinite_d (Finite (2 ^ 1023))
   \<and> convert_d (Num_d (Finite (2 ^ 1023))) (js ''in'') (js ''mm'') = Num_d PlusInfinity
   \<and> round_trip (Finite (2 ^ 1023)) (js ''in'') (js ''mm'') = Str_d []
   \<and> (\<forall>tol. \<not> close_to (round_trip (Finite (2 ^ 1023)) (js ''in'') (js ''mm'')) (2 ^ 1023) tol)"
proof -
  have "threshold \<le> \<bar>val_d (Finite (2 ^ 1023)) * val_d IN_TO_MM_d\<bar>"
    by (simp add: IN_TO_MM_d_value threshold_def)
  then have m: "fmul (Finite (2 ^ 1023)) IN_TO_MM_d = PlusInfinity"
    using fmul_overflow [of "Finite (2 ^ 1023)" IN_TO_MM_d]
    by (simp add: IN_TO_MM_d_value infinity_def)
  have c: "convert_d (Num_d (Finite (2 ^ 1023))) (js ''in'') (js ''mm'') = Num_d PlusInfinity"
    using convert_d_pairs(1) [of "Finite (2 ^ 1023)"] unfolding m by simp
  have r: "round_trip (Finite (2 ^ 1023)) (js ''in'') (js ''mm'') = Str_d []"
    unfolding round_trip_def c by (simp add: convert_d_not_finite)
  show ?thesis
    unfolding r c by (simp add: close_to_def)
qed

end
